theory Spec2Isabelle
  imports Main
begin

text \<open>
  A shallow embedding of the jscpu emulator: a register bank of six named slots, a list of
  instruction lines, a resolver of comma-separated operands, one handler per opcode and
  the fetch-decode-execute loop. The model follows the revision that has the branch
  instructions; the earlier revision differs in the dispatch table only (upper-case
  \<^verbatim>\<open>ADD\<close>, \<^verbatim>\<open>SUB\<close>, \<^verbatim>\<open>MOV\<close>) and in the fixed operand count of \<^verbatim>\<open>parseArgs\<close>.
\<close>

section \<open>JavaScript values used by the emulator\<close>

text \<open>
  Every number the emulator handles comes from \<^verbatim>\<open>parseInt\<close>, from the literals 0 and 1, or
  from adding and subtracting such numbers, so it is an integer-valued double, an infinity
  or NaN. \<open>Num k\<close> is the double of value \<open>k\<close>; the two zeros are one value here, since
  nothing the emulator computes tells them apart.
\<close>

datatype jsnum = NaN | Num int | PosInf | NegInf

text \<open>
  The Number value for an integer: the nearest double, ties to the even significand, and an
  infinity from \<open>2 ^ 1024\<close> on. A double of magnitude below \<open>2 ^ (53 + e)\<close> is a multiple of
  \<open>2 ^ e\<close>; \<open>shift_for n\<close> is the least such \<open>e\<close> for \<open>n\<close>.
\<close>

function shift_for :: "nat \<Rightarrow> nat" where
  "shift_for n = (if n < 2 ^ 53 then 0 else Suc (shift_for (n div 2)))"
  by pat_completeness auto
termination
  by (relation "measure (\<lambda>n. n)") auto

declare shift_for.simps [simp del]

definition round_nat :: "nat \<Rightarrow> nat" where
  "round_nat n =
     (let e = shift_for n; q = n div 2 ^ e; r = n mod 2 ^ e
      in if 2 * r < 2 ^ e \<or> (2 * r = 2 ^ e \<and> even q) then q * 2 ^ e else (q + 1) * 2 ^ e)"

definition to_double :: "int \<Rightarrow> jsnum" where
  "to_double i =
     (let m = round_nat (nat \<bar>i\<bar>)
      in if 2 ^ 1024 \<le> m then (if i < 0 then NegInf else PosInf)
         else Num (if i < 0 then - int m else int m))"

text \<open>
  Addition and subtraction of doubles: the exact result, rounded. The sum of opposite
  infinities and the difference of equal ones are NaN.
\<close>

fun jsadd :: "jsnum \<Rightarrow> jsnum \<Rightarrow> jsnum" where
  "jsadd (Num a) (Num b) = to_double (a + b)"
| "jsadd NaN _ = NaN"
| "jsadd _ NaN = NaN"
| "jsadd PosInf NegInf = NaN"
| "jsadd NegInf PosInf = NaN"
| "jsadd PosInf _ = PosInf"
| "jsadd _ PosInf = PosInf"
| "jsadd NegInf _ = NegInf"
| "jsadd _ NegInf = NegInf"

fun jssub :: "jsnum \<Rightarrow> jsnum \<Rightarrow> jsnum" where
  "jssub (Num a) (Num b) = to_double (a - b)"
| "jssub NaN _ = NaN"
| "jssub _ NaN = NaN"
| "jssub PosInf PosInf = NaN"
| "jssub NegInf NegInf = NaN"
| "jssub PosInf _ = PosInf"
| "jssub _ NegInf = PosInf"
| "jssub NegInf _ = NegInf"
| "jssub _ PosInf = NegInf"

text \<open>Comparisons with NaN are false, also \<^verbatim>\<open>NaN === NaN\<close>.\<close>

fun jslt :: "jsnum \<Rightarrow> jsnum \<Rightarrow> bool" where
  "jslt (Num a) (Num b) = (a < b)"
| "jslt NegInf (Num _) = True"
| "jslt NegInf PosInf = True"
| "jslt (Num _) PosInf = True"
| "jslt _ _ = False"

definition jsgt :: "jsnum \<Rightarrow> jsnum \<Rightarrow> bool" where
  "jsgt x y = jslt y x"

fun jseq :: "jsnum \<Rightarrow> jsnum \<Rightarrow> bool" where
  "jseq (Num a) (Num b) = (a = b)"
| "jseq PosInf PosInf = True"
| "jseq NegInf NegInf = True"
| "jseq _ _ = False"

definition jsge :: "jsnum \<Rightarrow> jsnum \<Rightarrow> bool" where
  "jsge x y \<longleftrightarrow> jslt y x \<or> jseq x y"

text \<open>\<^verbatim>\<open>Math.floor\<close> is the identity on integers, on the infinities and on NaN.\<close>

definition Math_floor :: "jsnum \<Rightarrow> jsnum" where
  "Math_floor x = x"

text \<open>
  What \<^verbatim>\<open>parseArgs\<close> can return: a raw token, a number, or \<^verbatim>\<open>undefined\<close> (a token index past
  the end of the array, which no handler asks for).
\<close>

datatype jsval = Undefined | Str string | Number jsnum

fun num_of :: "jsval \<Rightarrow> jsnum" where
  "num_of (Number n) = n"
| "num_of _ = NaN"

fun str_of :: "jsval \<Rightarrow> string" where
  "str_of (Str t) = t"
| "str_of Undefined = ''undefined''"
| "str_of (Number _) = []"

section \<open>Strings\<close>

text \<open>
  Strings are lists of 8-bit characters. The white space that \<^verbatim>\<open>trim\<close> and \<^verbatim>\<open>parseInt\<close>
  strip is, in that range: tab, line feed, vertical tab, form feed, carriage return,
  space and no-break space.
\<close>

definition isWhite :: "char \<Rightarrow> bool" where
  "isWhite ch \<longleftrightarrow> (of_char ch :: nat) \<in> set [9, 10, 11, 12, 13, 32, 160]"

definition trim :: "string \<Rightarrow> string" where
  "trim str = rev (dropWhile isWhite (rev (dropWhile isWhite str)))"

text \<open>
  \<^verbatim>\<open>str.split(sep)\<close> for a one-character separator, scanning the string with the piece
  read so far: never an empty array.
\<close>

fun split_acc :: "char \<Rightarrow> string \<Rightarrow> string \<Rightarrow> string list" where
  "split_acc sep cur [] = [cur]"
| "split_acc sep cur (x # xs) =
     (if x = sep then cur # split_acc sep [] xs else split_acc sep (cur @ [x]) xs)"

definition split_js :: "char \<Rightarrow> string \<Rightarrow> string list" where
  "split_js sep str = split_acc sep [] str"

text \<open>
  \<^verbatim>\<open>parseInt(str)\<close> with no radix: leading white space, an optional sign, an optional
  \<^verbatim>\<open>0x\<close>/\<^verbatim>\<open>0X\<close> prefix selecting radix 16, then the longest run of digits; NaN when that
  run is empty, else the Number value for the integer the digits denote. (The language
  lets an implementation drop the decimal digits after the twentieth; Node rounds the
  exact integer, as here.)
\<close>

definition digitVal :: "char \<Rightarrow> nat" where
  "digitVal ch =
     (let n = (of_char ch :: nat) in
      if 48 \<le> n \<and> n \<le> 57 then n - 48
      else if 97 \<le> n \<and> n \<le> 122 then n - 87
      else if 65 \<le> n \<and> n \<le> 90 then n - 55
      else 36)"

definition digits_value :: "nat \<Rightarrow> string \<Rightarrow> nat" where
  "digits_value radix ds = foldl (\<lambda>acc ch. acc * radix + digitVal ch) 0 ds"

definition parseInt :: "string \<Rightarrow> jsnum" where
  "parseInt str =
     (let s1 = dropWhile isWhite str;
          sign = (if s1 \<noteq> [] \<and> hd s1 = CHR ''-'' then - 1 else (1::int));
          s2 = (if s1 \<noteq> [] \<and> (hd s1 = CHR ''-'' \<or> hd s1 = CHR ''+'') then tl s1 else s1);
          hex = (take 2 s2 = ''0x'' \<or> take 2 s2 = ''0X'');
          radix = (if hex then 16 else (10::nat));
          s3 = (if hex then drop 2 s2 else s2);
          ds = takeWhile (\<lambda>ch. digitVal ch < radix) s3
      in if ds = [] then NaN
         else to_double (sign * int (digits_value radix ds)))"

section \<open>The CPU object\<close>

text \<open>
  The register object literal of \<^verbatim>\<open>reset\<close> has six own properties. \<^verbatim>\<open>validateRegister\<close>
  lets no other key be written and nothing deletes one, so the bank is a total function
  on the six names, and \<^verbatim>\<open>registers.hasOwnProperty(rName)\<close> is \<open>regOf rName \<noteq> None\<close>.
\<close>

datatype reg = R0 | R1 | S | Ovfl | Udfl | PC

definition regOf :: "string \<Rightarrow> reg option" where
  "regOf rName =
     (if rName = ''r0'' then Some R0
      else if rName = ''r1'' then Some R1
      else if rName = ''s'' then Some S
      else if rName = ''ovfl'' then Some Ovfl
      else if rName = ''udfl'' then Some Udfl
      else if rName = ''pc'' then Some PC
      else None)"

text \<open>
  The fields of the instance. \<^verbatim>\<open>debug\<close> only switches console output, which is not
  modelled. \<^verbatim>\<open>regSize\<close> and \<^verbatim>\<open>instructionSet\<close> are assigned the same constants by every
  \<^verbatim>\<open>reset\<close>, and no handler runs before the first one, so they are constants below.
\<close>

record cpu =
  inst :: "string list"
  pEnd :: int
  registers :: "reg \<Rightarrow> jsnum"

text \<open>
  The strings the source throws, one constructor per \<^verbatim>\<open>throw\<close> with the values the message
  quotes, and \<open>TypeError\<close> for the two run-time errors of JavaScript itself: calling an
  \<^verbatim>\<open>undefined\<close> handler and \<^verbatim>\<open>undefined.split\<close>.
\<close>

datatype error =
    NoSource
  | ExpectedSpace jsnum
  | UnknownFunction jsnum string
  | NoArguments string jsnum
  | InvalidArgCount jsnum
  | UnknownRegister string jsnum
  | JumpOutOfBounds jsnum
  | TypeError

text \<open>A throw leaves the instance as it is at that moment; the error value carries it.\<close>

type_synonym 'a result = "(error \<times> cpu) + 'a"

definition regSize :: int where
  "regSize = 256"

text \<open>
  The constructor sets \<^verbatim>\<open>inst\<close> and \<^verbatim>\<open>pEnd\<close> and leaves \<^verbatim>\<open>registers\<close> unset until the
  first \<^verbatim>\<open>reset\<close>, which \<^verbatim>\<open>init\<close> calls before anything reads a register.
\<close>

definition jscpu :: cpu where
  "jscpu = \<lparr>inst = [], pEnd = 0, registers = (\<lambda>_. NaN)\<rparr>"

definition reset :: "cpu \<Rightarrow> cpu" where
  "reset c = c\<lparr>registers := (\<lambda>_. Num 0)\<rparr>"

section \<open>Register bank\<close>

definition validateRegister :: "cpu \<Rightarrow> string \<Rightarrow> unit result" where
  "validateRegister c rName =
     (if regOf rName = None then Inl (UnknownRegister rName (registers c PC), c)
      else Inr ())"

definition getRegisterValue :: "cpu \<Rightarrow> string \<Rightarrow> jsnum result" where
  "getRegisterValue c rName =
     (case validateRegister c rName of
        Inl e \<Rightarrow> Inl e
      | Inr _ \<Rightarrow> Inr (registers c (the (regOf rName))))"

definition setRegisterValue :: "cpu \<Rightarrow> string \<Rightarrow> jsnum \<Rightarrow> cpu result" where
  "setRegisterValue c rName val =
     (case validateRegister c rName of
        Inl e \<Rightarrow> Inl e
      | Inr _ \<Rightarrow> Inr (c\<lparr>registers := (registers c)(the (regOf rName) := val)\<rparr>))"

section \<open>Argument resolver\<close>

text \<open>\<open>exec\<close> and \<open>len\<close> are passed explicitly; the source defaults them to true and 2.\<close>

definition parseArgs :: "cpu \<Rightarrow> string \<Rightarrow> nat \<Rightarrow> bool \<Rightarrow> nat \<Rightarrow> jsval result" where
  "parseArgs c args ind exec len =
     (let ara = split_js CHR '','' args in
      if length ara < len then Inl (InvalidArgCount (registers c PC), c)
      else if \<not> ind < length ara then
        (if exec then Inl (TypeError, c) else Inr Undefined)
      else
        (let rv = ara ! ind in
         if \<not> exec then Inr (Str rv)
         else if take 1 rv = ''#'' then Inr (Number (parseInt (drop 1 rv)))
         else (case getRegisterValue c rv of
                 Inl e \<Rightarrow> Inl e
               | Inr v \<Rightarrow> Inr (Number v))))"

section \<open>Instruction handlers\<close>

definition add :: "cpu \<Rightarrow> string \<Rightarrow> cpu result" where
  "add c arg =
     (case parseArgs c arg 0 True 2 of Inl e \<Rightarrow> Inl e | Inr ad \<Rightarrow>
     (case parseArgs c arg 1 True 2 of Inl e \<Rightarrow> Inl e | Inr cv \<Rightarrow>
     (case parseArgs c arg 1 False 2 of Inl e \<Rightarrow> Inl e | Inr dr \<Rightarrow>
        (let res = Math_floor (jsadd (num_of ad) (num_of cv)) in
         if jsge res (Num regSize) then
           (case setRegisterValue c ''ovfl'' (Num 1) of
              Inl e \<Rightarrow> Inl e
            | Inr c1 \<Rightarrow> setRegisterValue c1 (str_of dr) (Num (regSize - 1)))
         else setRegisterValue c (str_of dr) res))))"

definition mov :: "cpu \<Rightarrow> string \<Rightarrow> cpu result" where
  "mov c arg =
     (case parseArgs c arg 0 False 2 of Inl e \<Rightarrow> Inl e | Inr dr \<Rightarrow>
     (case parseArgs c arg 1 True 2 of Inl e \<Rightarrow> Inl e | Inr dv \<Rightarrow>
        setRegisterValue c (str_of dr) (num_of dv)))"

definition sub :: "cpu \<Rightarrow> string \<Rightarrow> cpu result" where
  "sub c arg =
     (case parseArgs c arg 0 True 2 of Inl e \<Rightarrow> Inl e | Inr sd \<Rightarrow>
     (case parseArgs c arg 1 True 2 of Inl e \<Rightarrow> Inl e | Inr cv \<Rightarrow>
     (case parseArgs c arg 1 False 2 of Inl e \<Rightarrow> Inl e | Inr dr \<Rightarrow>
        (let res = Math_floor (jssub (num_of cv) (num_of sd)) in
         if jslt res (Num 0) then
           (case setRegisterValue c ''udfl'' (Num 1) of
              Inl e \<Rightarrow> Inl e
            | Inr c1 \<Rightarrow> setRegisterValue c1 (str_of dr) (Num 0))
         else setRegisterValue c (str_of dr) res))))"

definition jmp :: "cpu \<Rightarrow> string \<Rightarrow> cpu result" where
  "jmp c arg =
     (case parseArgs c arg 0 True 1 of Inl e \<Rightarrow> Inl e | Inr jd \<Rightarrow>
        if jslt (num_of jd) (Num 0) \<or> jsgt (num_of jd) (Num (pEnd c))
        then Inl (JumpOutOfBounds (num_of jd), c)
        else Inr (c\<lparr>registers := (registers c)(PC := jssub (num_of jd) (Num 1))\<rparr>))"

definition cmp :: "cpu \<Rightarrow> string \<Rightarrow> cpu result" where
  "cmp c arg =
     (case parseArgs c arg 0 True 2 of Inl e \<Rightarrow> Inl e | Inr fv \<Rightarrow>
     (case parseArgs c arg 1 True 2 of Inl e \<Rightarrow> Inl e | Inr sv \<Rightarrow>
        (let r = (if jseq (num_of fv) (num_of sv) then Num 1 else Num 0) in
         setRegisterValue c ''s'' r)))"

definition jnz :: "cpu \<Rightarrow> string \<Rightarrow> cpu result" where
  "jnz c arg =
     (case getRegisterValue c ''s'' of Inl e \<Rightarrow> Inl e | Inr r \<Rightarrow>
        if jseq r (Num 0) then Inr c else jmp c arg)"

definition jze :: "cpu \<Rightarrow> string \<Rightarrow> cpu result" where
  "jze c arg =
     (case getRegisterValue c ''s'' of Inl e \<Rightarrow> Inl e | Inr r \<Rightarrow>
        if \<not> jseq r (Num 0) then Inr c else jmp c arg)"

section \<open>Dispatch table and execution loop\<close>

text \<open>
  The own properties of \<^verbatim>\<open>instructionSet\<close>. \<^verbatim>\<open>cpu.cgt\<close> and \<^verbatim>\<open>cpu.clt\<close> are never defined,
  so these two keys are present and hold \<^verbatim>\<open>undefined\<close>: \<open>Some None\<close>.
\<close>

definition instructionSet :: "string \<Rightarrow> (cpu \<Rightarrow> string \<Rightarrow> cpu result) option option" where
  "instructionSet name =
     (if name = ''add'' then Some (Some add)
      else if name = ''sub'' then Some (Some sub)
      else if name = ''mov'' then Some (Some mov)
      else if name = ''jmp'' then Some (Some jmp)
      else if name = ''cmp'' then Some (Some cmp)
      else if name = ''cgt'' then Some None
      else if name = ''clt'' then Some None
      else if name = ''jnz'' then Some (Some jnz)
      else if name = ''jze'' then Some (Some jze)
      else None)"

text \<open>\<^verbatim>\<open>cpu.registers.pc++\<close>\<close>

definition pc_increment :: "cpu \<Rightarrow> cpu" where
  "pc_increment c = c\<lparr>registers := (registers c)(PC := jsadd (registers c PC) (Num 1))\<rparr>"

text \<open>
  \<open>exec\<close> receives what \<^verbatim>\<open>cpu.inst[pc]\<close> gave: \<open>None\<close> is \<^verbatim>\<open>undefined\<close>, on which
  \<^verbatim>\<open>line.split\<close> is a TypeError.
\<close>

definition exec :: "cpu \<Rightarrow> string option \<Rightarrow> cpu result" where
  "exec c ln =
     (case ln of None \<Rightarrow> Inl (TypeError, c) | Some line \<Rightarrow>
        (let abf = split_js CHR '' '' line in
         if length abf < 2 then Inl (ExpectedSpace (registers c PC), c)
         else
           (let opc = abf ! 0 in
            case instructionSet opc of
              None \<Rightarrow> Inl (UnknownFunction (registers c PC) opc, c)
            | Some h \<Rightarrow>
                (let args = trim (abf ! 1) in
                 if args = [] then Inl (NoArguments opc (registers c PC), c)
                 else
                   (case h of
                      None \<Rightarrow> Inl (TypeError, c)
                    | Some f \<Rightarrow>
                        (case f c args of
                           Inl e \<Rightarrow> Inl e
                         | Inr c' \<Rightarrow> Inr (pc_increment c')))))))"

text \<open>\<^verbatim>\<open>cpu.inst[pc]\<close>: \<^verbatim>\<open>undefined\<close> outside the array.\<close>

definition fetch :: "cpu \<Rightarrow> string option" where
  "fetch c =
     (case registers c PC of
        Num k \<Rightarrow> if 0 \<le> k \<and> nat k < length (inst c) then Some (inst c ! nat k) else None
      | _ \<Rightarrow> None)"

text \<open>The loop may run forever; \<open>None\<close> is then the value of \<open>main\<close>.\<close>

partial_function (option) main :: "cpu \<Rightarrow> (error \<times> cpu + cpu) option" where
  "main c =
     (if jslt (registers c PC) (Num (pEnd c)) then
        (case exec c (fetch c) of
           Inl e \<Rightarrow> Some (Inl e)
         | Inr c' \<Rightarrow> main c')
      else Some (Inr c))"

declare main.simps [code]

section \<open>Program loader\<close>

text \<open>The body of the \<^verbatim>\<open>for\<close> loop of \<^verbatim>\<open>init\<close>, over the lines still to visit.\<close>

fun push_lines :: "cpu \<Rightarrow> string list \<Rightarrow> cpu" where
  "push_lines c [] = c"
| "push_lines c (l # ls) =
     (let line = trim l in
      if line = [] then push_lines c ls
      else push_lines (c\<lparr>inst := inst c @ [line]\<rparr>) ls)"

definition init :: "cpu \<Rightarrow> string \<Rightarrow> (error \<times> cpu + cpu) option" where
  "init c asm =
     (let c1 = reset c;
          rb = split_js CHR 0x0A asm
      in if length rb < 1 then Some (Inl (NoSource, c1))
         else
           (let c2 = push_lines c1 rb;
                c3 = c2\<lparr>pEnd := int (length (inst c2))\<rparr>
            in main c3))"

section \<open>Vocabulary of the specification\<close>

text \<open>
  The error kinds of the specification, as sets of the thrown messages: a missing operand
  is either of the two messages of \<open>exec\<close> about a line without a space and about empty
  arguments.
\<close>

fun EmptyProgramError :: "error \<Rightarrow> bool" where
  "EmptyProgramError NoSource = True"
| "EmptyProgramError _ = False"

fun MissingOperandError :: "error \<Rightarrow> bool" where
  "MissingOperandError (ExpectedSpace _) = True"
| "MissingOperandError (NoArguments _ _) = True"
| "MissingOperandError _ = False"

fun UnknownOpcodeError :: "error \<Rightarrow> bool" where
  "UnknownOpcodeError (UnknownFunction _ _) = True"
| "UnknownOpcodeError _ = False"

fun UnknownRegisterError :: "error \<Rightarrow> bool" where
  "UnknownRegisterError (UnknownRegister _ _) = True"
| "UnknownRegisterError _ = False"

text \<open>The line index that the message of an error quotes, where it quotes one.\<close>

fun error_line :: "error \<Rightarrow> jsnum option" where
  "error_line (ExpectedSpace p) = Some p"
| "error_line (UnknownFunction p _) = Some p"
| "error_line (NoArguments _ p) = Some p"
| "error_line (InvalidArgCount p) = Some p"
| "error_line (UnknownRegister _ p) = Some p"
| "error_line _ = None"

definition fails_with :: "(error \<Rightarrow> bool) \<Rightarrow> 'a result \<Rightarrow> bool" where
  "fails_with kind r = (case r of Inl (e, _) \<Rightarrow> kind e | Inr _ \<Rightarrow> False)"

text \<open>The instance as a call leaves it, whether it returned or threw.\<close>

fun state_of :: "cpu result \<Rightarrow> cpu" where
  "state_of (Inl (_, c)) = c"
| "state_of (Inr c) = c"

text \<open>The non-blank trimmed lines of a source text, in order.\<close>

definition program_lines :: "string \<Rightarrow> string list" where
  "program_lines asm = filter (\<lambda>l. l \<noteq> []) (map trim (split_js CHR 0x0A asm))"

text \<open>
  The opcode and the operand text that \<open>exec\<close> reads off a line: the text before the first
  space, and the text between the first space and the second (or the end of the line).
\<close>

definition opcode_of :: "string \<Rightarrow> string" where
  "opcode_of line = takeWhile (\<lambda>ch. ch \<noteq> CHR '' '') line"

definition operand_of :: "string \<Rightarrow> string" where
  "operand_of line =
     takeWhile (\<lambda>ch. ch \<noteq> CHR '' '') (tl (dropWhile (\<lambda>ch. ch \<noteq> CHR '' '') line))"

text \<open>A line that \<open>exec\<close> reads as opcode \<open>opc\<close> with the non-empty argument text \<open>arg\<close>.\<close>

definition decodes :: "string \<Rightarrow> string \<Rightarrow> string \<Rightarrow> bool" where
  "decodes line opc arg \<longleftrightarrow>
     2 \<le> length (split_js CHR '' '' line) \<and> split_js CHR '' '' line ! 0 = opc \<and>
     trim (split_js CHR '' '' line ! 1) = arg \<and> arg \<noteq> []"

text \<open>The errors a handler can end with, in an instance whose \<open>pc\<close> is that of \<open>c\<close>.\<close>

fun handler_error :: "cpu \<Rightarrow> error \<Rightarrow> bool" where
  "handler_error c (InvalidArgCount p) = (p = registers c PC)"
| "handler_error c (UnknownRegister _ p) = (p = registers c PC)"
| "handler_error c (JumpOutOfBounds _) = True"
| "handler_error c TypeError = True"
| "handler_error c _ = False"

text \<open>Writing one register of an instance.\<close>

definition with_reg :: "cpu \<Rightarrow> reg \<Rightarrow> jsnum \<Rightarrow> cpu" where
  "with_reg c r v = c\<lparr>registers := (registers c)(r := v)\<rparr>"

section \<open>Rounding to a double\<close>

text \<open>Integers up to \<open>2 ^ 53\<close> in magnitude are doubles; rounding never crosses \<open>2 ^ 53\<close>.\<close>

lemma shift_for_small: "n < 2 ^ 53 \<Longrightarrow> shift_for n = 0"
  by (subst shift_for.simps) simp

lemma shift_for_big: "\<not> n < 2 ^ 53 \<Longrightarrow> shift_for n = Suc (shift_for (n div 2))"
  by (subst shift_for.simps) simp

lemma round_nat_small: "n < 2 ^ 53 \<Longrightarrow> round_nat n = n"
  by (simp add: round_nat_def shift_for_small)

lemma round_nat_53: "round_nat (2 ^ 53) = 2 ^ 53"
  by (simp add: round_nat_def shift_for_small shift_for_big)

lemma round_nat_exact: "n \<le> 2 ^ 53 \<Longrightarrow> round_nat n = n"
  using round_nat_small[of n] round_nat_53 by (cases "n = 2 ^ 53") auto

lemma shift_for_quotient:
  "2 ^ 53 \<le> n \<Longrightarrow> 0 < shift_for n \<and> 2 ^ 52 \<le> n div 2 ^ shift_for n"
proof (induction n rule: shift_for.induct)
  case (1 n)
  show ?case
  proof (cases "n div 2 < 2 ^ 53")
    case True
    with 1(2) show ?thesis
      by (simp add: shift_for_big[of n] shift_for_small[of "n div 2"])
  next
    case False
    with 1 have "0 < shift_for (n div 2) \<and> 2 ^ 52 \<le> n div 2 div 2 ^ shift_for (n div 2)"
      by simp
    with 1(2) show ?thesis
      by (simp add: shift_for_big[of n] div_mult2_eq)
  qed
qed

lemma round_nat_big: "2 ^ 53 \<le> n \<Longrightarrow> 2 ^ 53 \<le> round_nat n"
proof -
  assume n: "2 ^ 53 \<le> n"
  let ?e = "shift_for n" and ?q = "n div 2 ^ shift_for n"
  from shift_for_quotient[OF n] have e: "0 < ?e" and q: "2 ^ 52 \<le> ?q" by simp_all
  from e have "(2::nat) \<le> 2 ^ ?e" by (cases ?e) simp_all
  with q have "(2::nat) ^ 52 * 2 \<le> ?q * 2 ^ ?e" by (rule mult_le_mono)
  then have "(2::nat) ^ 53 \<le> ?q * 2 ^ ?e" by simp
  moreover have "?q * 2 ^ ?e \<le> round_nat n" by (simp add: round_nat_def Let_def)
  ultimately show ?thesis by linarith
qed

lemma to_double_exact: "\<bar>i\<bar> \<le> 2 ^ 53 \<Longrightarrow> to_double i = Num i"
proof -
  assume a: "\<bar>i\<bar> \<le> 2 ^ 53"
  then have "nat \<bar>i\<bar> \<le> 2 ^ 53" by (simp add: nat_le_iff)
  then have r: "round_nat (nat \<bar>i\<bar>) = nat \<bar>i\<bar>" by (rule round_nat_exact)
  have "(2::nat) ^ 53 < 2 ^ 1024" by (rule power_strict_increasing) simp_all
  with \<open>nat \<bar>i\<bar> \<le> 2 ^ 53\<close> have "\<not> 2 ^ 1024 \<le> nat \<bar>i\<bar>" by linarith
  with r show ?thesis by (simp add: to_double_def Let_def)
qed

lemma to_double_above: "2 ^ 53 \<le> i \<Longrightarrow> to_double i = PosInf \<or> (\<exists>k. to_double i = Num k \<and> 2 ^ 53 \<le> k)"
proof -
  assume a: "2 ^ 53 \<le> i"
  then have "2 ^ 53 \<le> nat \<bar>i\<bar>" by (simp add: le_nat_iff)
  from round_nat_big[OF this] have "(2::int) ^ 53 \<le> int (round_nat (nat \<bar>i\<bar>))"
    by (metis of_nat_le_iff of_nat_numeral of_nat_power)
  with a show ?thesis by (auto simp: to_double_def Let_def)
qed

lemma to_double_below: "i \<le> - (2 ^ 53) \<Longrightarrow> to_double i = NegInf \<or> (\<exists>k. to_double i = Num k \<and> k \<le> - (2 ^ 53))"
proof -
  assume a: "i \<le> - (2 ^ 53)"
  then have "2 ^ 53 \<le> nat \<bar>i\<bar>" by (simp add: le_nat_iff)
  from round_nat_big[OF this] have "(2::int) ^ 53 \<le> int (round_nat (nat \<bar>i\<bar>))"
    by (metis of_nat_le_iff of_nat_numeral of_nat_power)
  with a show ?thesis by (auto simp: to_double_def Let_def)
qed

lemma to_double_ge_256: "jsge (to_double i) (Num 256) \<longleftrightarrow> 256 \<le> i"
proof (cases "\<bar>i\<bar> \<le> 2 ^ 53")
  case True
  then show ?thesis by (auto simp: to_double_exact jsge_def)
next
  case False
  then consider "2 ^ 53 \<le> i" | "i \<le> - (2 ^ 53)" by linarith
  then show ?thesis
  proof cases
    case 1
    with to_double_above[OF 1] show ?thesis by (auto simp: jsge_def)
  next
    case 2
    with to_double_below[OF 2] show ?thesis by (auto simp: jsge_def)
  qed
qed

lemma to_double_lt_0: "jslt (to_double i) (Num 0) \<longleftrightarrow> i < 0"
proof (cases "\<bar>i\<bar> \<le> 2 ^ 53")
  case True
  then show ?thesis by (simp add: to_double_exact)
next
  case False
  then consider "2 ^ 53 \<le> i" | "i \<le> - (2 ^ 53)" by linarith
  then show ?thesis
  proof cases
    case 1
    with to_double_above[OF 1] show ?thesis by auto
  next
    case 2
    with to_double_below[OF 2] show ?thesis by auto
  qed
qed

section \<open>Register bank and argument resolver: basic facts\<close>

lemma regOf_hash: "regOf d = Some r \<Longrightarrow> take (Suc 0) d \<noteq> ''#''"
  by (auto simp: regOf_def split: if_splits)

lemma regOf_names [simp]:
  "regOf ''r0'' = Some R0" "regOf ''r1'' = Some R1" "regOf ''s'' = Some S"
  "regOf ''ovfl'' = Some Ovfl" "regOf ''udfl'' = Some Udfl" "regOf ''pc'' = Some PC"
  by (simp_all add: regOf_def)

lemma with_reg_simps [simp]:
  "registers (with_reg c r v) = (registers c)(r := v)"
  "inst (with_reg c r v) = inst c" "pEnd (with_reg c r v) = pEnd c"
  by (simp_all add: with_reg_def)

lemma pc_increment_simps [simp]:
  "registers (pc_increment c) = (registers c)(PC := jsadd (registers c PC) (Num 1))"
  "inst (pc_increment c) = inst c" "pEnd (pc_increment c) = pEnd c"
  by (simp_all add: pc_increment_def)

lemma reset_simps [simp]:
  "registers (reset c) r = Num 0" "inst (reset c) = inst c" "pEnd (reset c) = pEnd c"
  by (simp_all add: reset_def)

lemma getRegisterValue_ok: "regOf n = Some r \<Longrightarrow> getRegisterValue c n = Inr (registers c r)"
  by (simp add: getRegisterValue_def validateRegister_def)

lemma getRegisterValue_bad:
  "regOf n = None \<Longrightarrow> getRegisterValue c n = Inl (UnknownRegister n (registers c PC), c)"
  by (simp add: getRegisterValue_def validateRegister_def)

lemma setRegisterValue_ok:
  "regOf n = Some r \<Longrightarrow> setRegisterValue c n v = Inr (with_reg c r v)"
  by (simp add: setRegisterValue_def validateRegister_def with_reg_def)

lemma setRegisterValue_bad:
  "regOf n = None \<Longrightarrow> setRegisterValue c n v = Inl (UnknownRegister n (registers c PC), c)"
  by (simp add: setRegisterValue_def validateRegister_def)

lemma jseq_zero: "jseq x (Num 0) \<longleftrightarrow> x = Num 0"
  by (cases x) auto

lemma jsadd_exact: "\<bar>a + b\<bar> \<le> 2 ^ 53 \<Longrightarrow> jsadd (Num a) (Num b) = Num (a + b)"
  by (simp add: to_double_exact)

lemma jssub_exact: "\<bar>a - b\<bar> \<le> 2 ^ 53 \<Longrightarrow> jssub (Num a) (Num b) = Num (a - b)"
  by (simp add: to_double_exact)

lemma parseArgs_raw:
  "parseArgs c arg i False len = Inr (Str d) \<longleftrightarrow>
     len \<le> length (split_js CHR '','' arg) \<and> i < length (split_js CHR '','' arg) \<and>
     d = split_js CHR '','' arg ! i"
  by (auto simp: parseArgs_def Let_def)

text \<open>A token that names a register resolves to the value of that register.\<close>

lemma parseArgs_reg:
  "parseArgs c arg i False len = Inr (Str d) \<Longrightarrow> regOf d = Some r \<Longrightarrow>
   parseArgs c arg i True len = Inr (Number (registers c r))"
  using regOf_hash[of d r]
  by (auto simp: parseArgs_def Let_def getRegisterValue_ok split: if_splits)

text \<open>The resolver writes nothing, and its errors quote the current \<open>pc\<close>.\<close>

lemma parseArgs_fail:
  "parseArgs c arg i ex len = Inl (e, c') \<Longrightarrow>
   c' = c \<and> (e = InvalidArgCount (registers c PC) \<or> e = TypeError \<or>
     (\<exists>n. e = UnknownRegister n (registers c PC)))"
  by (auto simp: parseArgs_def Let_def getRegisterValue_def validateRegister_def
      split: if_splits sum.splits)

text \<open>The concrete instances below are evaluated with these unfoldings.\<close>

lemmas eval_defs =
  split_js_def parseArgs_def parseInt_def digits_value_def digitVal_def isWhite_def trim_def
  Let_def to_double_exact jsge_def jsgt_def
  getRegisterValue_def setRegisterValue_def validateRegister_def
  Math_floor_def regSize_def with_reg_def pc_increment_def reset_def jscpu_def

lemmas run_defs =
  eval_defs regOf_def exec_def fetch_def instructionSet_def program_lines_def decodes_def
  add_def sub_def mov_def jmp_def cmp_def jnz_def jze_def

section \<open>What a handler can do to the instance\<close>

text \<open>A failed register write changes nothing; a successful one changes that register.\<close>

lemma setRegisterValue_fail:
  "setRegisterValue c n v = Inl (e, c') \<Longrightarrow> c' = c \<and> e = UnknownRegister n (registers c PC)"
  by (auto simp: setRegisterValue_def validateRegister_def split: if_splits)

lemma setRegisterValue_done:
  "setRegisterValue c n v = Inr c' \<Longrightarrow> \<exists>r. regOf n = Some r \<and> c' = with_reg c r v"
  by (auto simp: setRegisterValue_def validateRegister_def with_reg_def split: if_splits)

lemma parseArgs_fail': "parseArgs c arg i ex len = Inl (e, c') \<Longrightarrow> c' = c \<and> handler_error c e"
  by (drule parseArgs_fail) auto

lemma setRegisterValue_fail':
  "setRegisterValue c n v = Inl (e, c') \<Longrightarrow> c' = c \<and> handler_error c e"
  by (drule setRegisterValue_fail) auto

lemma handler_error_with_reg: "r \<noteq> PC \<Longrightarrow> handler_error (with_reg c r v) e = handler_error c e"
  by (cases e) simp_all

text \<open>
  A handler that throws has written nothing, except that \<open>add\<close> and \<open>sub\<close> may have set
  their flag: they write it before the destination name is checked.
\<close>

lemma add_fail:
  assumes "add c arg = Inl (e, c')"
  shows "(c' = c \<or> c' = with_reg c Ovfl (Num 1)) \<and> handler_error c e"
  using assms unfolding add_def Let_def
  by (auto split: sum.splits if_splits dest!: parseArgs_fail' setRegisterValue_fail' setRegisterValue_done
      simp: handler_error_with_reg)

lemma sub_fail:
  assumes "sub c arg = Inl (e, c')"
  shows "(c' = c \<or> c' = with_reg c Udfl (Num 1)) \<and> handler_error c e"
  using assms unfolding sub_def Let_def
  by (auto split: sum.splits if_splits dest!: parseArgs_fail' setRegisterValue_fail' setRegisterValue_done
      simp: handler_error_with_reg)

lemma mov_fail: "mov c arg = Inl (e, c') \<Longrightarrow> c' = c \<and> handler_error c e"
  unfolding mov_def
  by (auto split: sum.splits dest!: parseArgs_fail' setRegisterValue_fail')

lemma cmp_fail: "cmp c arg = Inl (e, c') \<Longrightarrow> c' = c \<and> handler_error c e"
  unfolding cmp_def Let_def
  by (auto split: sum.splits dest!: parseArgs_fail' setRegisterValue_fail')

lemma jmp_fail: "jmp c arg = Inl (e, c') \<Longrightarrow> c' = c \<and> handler_error c e"
  unfolding jmp_def
  by (auto split: sum.splits if_splits dest!: parseArgs_fail')

lemma jnz_fail: "jnz c arg = Inl (e, c') \<Longrightarrow> c' = c \<and> handler_error c e"
  by (auto simp: jnz_def getRegisterValue_ok split: if_splits dest!: jmp_fail)

lemma jze_fail: "jze c arg = Inl (e, c') \<Longrightarrow> c' = c \<and> handler_error c e"
  by (auto simp: jze_def getRegisterValue_ok split: if_splits dest!: jmp_fail)

lemma instructionSet_cases:
  "instructionSet n = Some (Some f) \<Longrightarrow>
     (n = ''add'' \<and> f = add) \<or> (n = ''sub'' \<and> f = sub) \<or> (n = ''mov'' \<and> f = mov) \<or>
     (n = ''jmp'' \<and> f = jmp) \<or> (n = ''cmp'' \<and> f = cmp) \<or> (n = ''jnz'' \<and> f = jnz) \<or>
     (n = ''jze'' \<and> f = jze)"
  by (simp add: instructionSet_def split: if_splits)

lemma instructionSet_names [simp]:
  "instructionSet ''add'' = Some (Some add)" "instructionSet ''sub'' = Some (Some sub)"
  "instructionSet ''mov'' = Some (Some mov)" "instructionSet ''jmp'' = Some (Some jmp)"
  "instructionSet ''cmp'' = Some (Some cmp)" "instructionSet ''cgt'' = Some None"
  "instructionSet ''clt'' = Some None" "instructionSet ''jnz'' = Some (Some jnz)"
  "instructionSet ''jze'' = Some (Some jze)"
  by (simp_all add: instructionSet_def)

lemma handler_fail:
  assumes "instructionSet n = Some (Some f)" and "f c arg = Inl (e, c')"
  shows "(c' = c \<or> (n = ''add'' \<and> c' = with_reg c Ovfl (Num 1)) \<or>
          (n = ''sub'' \<and> c' = with_reg c Udfl (Num 1))) \<and> handler_error c e"
  using instructionSet_cases[OF assms(1)] assms(2)
  by (auto dest: add_fail sub_fail mov_fail cmp_fail jmp_fail jnz_fail jze_fail)

lemma handler_error_kinds:
  "handler_error c e \<Longrightarrow> \<not> MissingOperandError e \<and> \<not> UnknownOpcodeError e \<and> \<not> EmptyProgramError e
     \<and> (UnknownRegisterError e \<longrightarrow> error_line e = Some (registers c PC))"
  by (cases e) simp_all

text \<open>No handler, and so no run, touches \<open>inst\<close> or \<open>pEnd\<close>.\<close>

lemma add_frame: "add c arg = Inr c' \<Longrightarrow> inst c' = inst c \<and> pEnd c' = pEnd c"
  unfolding add_def Let_def
  by (auto split: sum.splits if_splits dest!: setRegisterValue_done)

lemma sub_frame: "sub c arg = Inr c' \<Longrightarrow> inst c' = inst c \<and> pEnd c' = pEnd c"
  unfolding sub_def Let_def
  by (auto split: sum.splits if_splits dest!: setRegisterValue_done)

lemma mov_frame: "mov c arg = Inr c' \<Longrightarrow> inst c' = inst c \<and> pEnd c' = pEnd c"
  unfolding mov_def
  by (auto split: sum.splits dest!: setRegisterValue_done)

lemma cmp_frame: "cmp c arg = Inr c' \<Longrightarrow> inst c' = inst c \<and> pEnd c' = pEnd c"
  unfolding cmp_def Let_def
  by (auto split: sum.splits dest!: setRegisterValue_done)

lemma jmp_frame: "jmp c arg = Inr c' \<Longrightarrow> inst c' = inst c \<and> pEnd c' = pEnd c"
  unfolding jmp_def
  by (auto split: sum.splits if_splits)

lemma jnz_frame: "jnz c arg = Inr c' \<Longrightarrow> inst c' = inst c \<and> pEnd c' = pEnd c"
  by (auto simp: jnz_def getRegisterValue_ok split: if_splits dest!: jmp_frame)

lemma jze_frame: "jze c arg = Inr c' \<Longrightarrow> inst c' = inst c \<and> pEnd c' = pEnd c"
  by (auto simp: jze_def getRegisterValue_ok split: if_splits dest!: jmp_frame)

lemma handler_frame:
  assumes "instructionSet n = Some (Some f)"
  shows "inst (state_of (f c arg)) = inst c \<and> pEnd (state_of (f c arg)) = pEnd c"
proof (cases "f c arg")
  case (Inl p)
  obtain e c' where "p = (e, c')" by (cases p)
  with Inl handler_fail[OF assms, of c arg e c'] show ?thesis by auto
next
  case (Inr c')
  with instructionSet_cases[OF assms] show ?thesis
    by (auto dest: add_frame sub_frame mov_frame cmp_frame jmp_frame jnz_frame jze_frame)
qed

lemma exec_frame: "inst (state_of (exec c ln)) = inst c \<and> pEnd (state_of (exec c ln)) = pEnd c"
proof (cases ln)
  case None
  then show ?thesis by (simp add: exec_def)
next
  case (Some line)
  show ?thesis
  proof (cases "instructionSet (split_js CHR '' '' line ! 0)")
    case None
    with Some show ?thesis by (simp add: exec_def Let_def)
  next
    case h: (Some h)
    show ?thesis
    proof (cases h)
      case None
      with Some h show ?thesis by (simp add: exec_def Let_def)
    next
      case f: (Some f)
      from handler_frame[of "split_js CHR '' '' line ! 0" f c "trim (split_js CHR '' '' line ! 1)"] h f
      have "inst (state_of (f c (trim (split_js CHR '' '' line ! 1)))) = inst c \<and>
            pEnd (state_of (f c (trim (split_js CHR '' '' line ! 1)))) = pEnd c" by simp
      with Some h f show ?thesis
        by (auto simp: exec_def Let_def split: sum.splits)
    qed
  qed
qed

section \<open>The loop and the loader: basic facts\<close>

lemma main_step:
  "jslt (registers c PC) (Num (pEnd c)) \<Longrightarrow>
   main c = (case exec c (fetch c) of Inl e \<Rightarrow> Some (Inl e) | Inr c' \<Rightarrow> main c')"
  by (subst main.simps) simp

lemma main_halt: "\<not> jslt (registers c PC) (Num (pEnd c)) \<Longrightarrow> main c = Some (Inr c)"
  by (subst main.simps) simp

lemma main_frame:
  "main c = Some r \<Longrightarrow> inst (state_of r) = inst c \<and> pEnd (state_of r) = pEnd c"
proof (induction rule: main.raw_induct[rotated 1, consumes 1])
  case (1 main c r)
  show ?case
  proof (cases "jslt (registers c PC) (Num (pEnd c))")
    case False
    with 1(2) show ?thesis by auto
  next
    case True
    show ?thesis
    proof (cases "exec c (fetch c)")
      case (Inl p)
      with True 1(2) exec_frame[of c "fetch c"] show ?thesis by (cases p) auto
    next
      case (Inr c')
      with True 1(2) have "main c' = Some r" by simp
      from 1(1)[OF this] exec_frame[of c "fetch c"] Inr show ?thesis by simp
    qed
  qed
qed

lemma push_lines_inst:
  "inst (push_lines c ls) = inst c @ filter (\<lambda>l. l \<noteq> []) (map trim ls)"
  by (induction ls arbitrary: c) (auto simp: Let_def)

lemma push_lines_other:
  "registers (push_lines c ls) = registers c \<and> pEnd (push_lines c ls) = pEnd c"
  by (induction ls arbitrary: c) (auto simp: Let_def)

lemma split_acc_nonempty: "split_acc sep cur str \<noteq> []"
  by (induction str arbitrary: cur) auto

lemma split_js_nonempty: "split_js sep str \<noteq> []"
  by (simp add: split_js_def split_acc_nonempty)

text \<open>\<open>init\<close> runs the loop on the old instruction list followed by the new lines.\<close>

lemma init_eq:
  "init c asm =
     main \<lparr>inst = inst c @ program_lines asm,
           pEnd = int (length (inst c) + length (program_lines asm)),
           registers = registers (reset c)\<rparr>"
proof -
  have "length (split_js CHR 0x0A asm) \<noteq> 0" using split_js_nonempty by simp
  moreover have "push_lines (reset c) ls\<lparr>pEnd := int (length (inst (push_lines (reset c) ls)))\<rparr>
        = \<lparr>inst = inst c @ filter (\<lambda>l. l \<noteq> []) (map trim ls),
           pEnd = int (length (inst c) + length (filter (\<lambda>l. l \<noteq> []) (map trim ls))),
           registers = registers (reset c)\<rparr>" for ls
    using push_lines_inst[of "reset c" ls] push_lines_other[of "reset c" ls]
    by (cases "push_lines (reset c) ls") (auto)
  ultimately show ?thesis
    by (simp add: init_def Let_def program_lines_def)
qed

text \<open>The pieces of a split line.\<close>

lemma split_acc_shape:
  "split_acc sep cur str =
     (cur @ takeWhile (\<lambda>ch. ch \<noteq> sep) str) #
     (if sep \<in> set str then split_acc sep [] (tl (dropWhile (\<lambda>ch. ch \<noteq> sep) str)) else [])"
  by (induction str arbitrary: cur) auto

lemma split_js_shape:
  "split_js sep str =
     takeWhile (\<lambda>ch. ch \<noteq> sep) str #
     (if sep \<in> set str then split_js sep (tl (dropWhile (\<lambda>ch. ch \<noteq> sep) str)) else [])"
  using split_acc_shape[of sep "[]" str] by (simp add: split_js_def)

lemma split_js_length: "2 \<le> length (split_js sep str) \<longleftrightarrow> sep \<in> set str"
proof -
  have "Suc 0 \<le> length (split_js sep (tl (dropWhile (\<lambda>ch. ch \<noteq> sep) str)))"
    using split_js_nonempty[of sep "tl (dropWhile (\<lambda>ch. ch \<noteq> sep) str)"]
    by (simp add: Suc_le_eq)
  then show ?thesis by (subst split_js_shape) auto
qed

lemma split_js_first: "split_js CHR '' '' line ! 0 = opcode_of line"
  by (subst split_js_shape) (simp add: opcode_of_def)

lemma split_js_second:
  "CHR '' '' \<in> set line \<Longrightarrow> split_js CHR '' '' line ! Suc 0 = operand_of line"
  by (subst split_js_shape, simp add: operand_of_def, subst split_js_shape, simp)

text \<open>\<open>exec\<close> in terms of the opcode and operand text of the line.\<close>

lemma exec_Some:
  "exec c (Some line) =
     (if CHR '' '' \<notin> set line then Inl (ExpectedSpace (registers c PC), c)
      else case instructionSet (opcode_of line) of
        None \<Rightarrow> Inl (UnknownFunction (registers c PC) (opcode_of line), c)
      | Some h \<Rightarrow>
          if trim (operand_of line) = [] then Inl (NoArguments (opcode_of line) (registers c PC), c)
          else case h of
            None \<Rightarrow> Inl (TypeError, c)
          | Some f \<Rightarrow> (case f c (trim (operand_of line)) of
                         Inl e \<Rightarrow> Inl e
                       | Inr c' \<Rightarrow> Inr (pc_increment c')))"
proof (cases "CHR '' '' \<in> set line")
  case False
  then have "length (split_js CHR '' '' line) < 2" using split_js_length[of "CHR '' ''" line] by simp
  with False show ?thesis by (simp add: exec_def)
next
  case True
  then have "\<not> length (split_js CHR '' '' line) < 2"
    using split_js_length[of "CHR '' ''" line] by simp
  with True show ?thesis
    by (simp add: exec_def Let_def split_js_first split_js_second split: option.split)
qed

lemma exec_decodes:
  assumes "decodes line opc arg" and "instructionSet opc = Some (Some f)"
  shows "exec c (Some line) =
           (case f c arg of Inl e \<Rightarrow> Inl e | Inr c' \<Rightarrow> Inr (pc_increment c'))"
  using assms by (auto simp: decodes_def exec_def Let_def)

lemma exec_not_NoSource: "exec c ln = Inl (e, c') \<Longrightarrow> \<not> EmptyProgramError e"
proof (cases ln)
  case None
  assume "exec c ln = Inl (e, c')"
  with None show ?thesis by (auto simp: exec_def)
next
  case (Some line)
  assume ex: "exec c ln = Inl (e, c')"
  show ?thesis
  proof (cases "instructionSet (opcode_of line)")
    case None
    with ex Some show ?thesis by (auto simp: exec_Some split: if_splits)
  next
    case h: (Some h)
    show ?thesis
    proof (cases h)
      case None
      with ex Some h show ?thesis by (auto simp: exec_Some split: if_splits)
    next
      case f: (Some f)
      from h f have i: "instructionSet (opcode_of line) = Some (Some f)" by simp
      show ?thesis
      proof (cases "f c (trim (operand_of line))")
        case (Inr c'')
        with ex Some h f show ?thesis by (auto simp: exec_Some split: if_splits)
      next
        case (Inl p)
        obtain e1 c1 where p: "p = (e1, c1)" by (cases p)
        from handler_fail[OF i, of c "trim (operand_of line)" e1 c1] Inl p
        have "handler_error c e1" by simp
        then have "\<not> EmptyProgramError e1" using handler_error_kinds by blast
        with ex Some h f Inl p show ?thesis by (auto simp: exec_Some split: if_splits)
      qed
    qed
  qed
qed

lemma main_not_NoSource: "main c = Some r \<Longrightarrow> \<not> fails_with EmptyProgramError r"
proof (induction rule: main.raw_induct[rotated 1, consumes 1])
  case (1 main c r)
  show ?case
  proof (cases "jslt (registers c PC) (Num (pEnd c))")
    case False
    with 1(2) show ?thesis by (auto simp: fails_with_def)
  next
    case True
    show ?thesis
    proof (cases "exec c (fetch c)")
      case (Inl p)
      obtain e c' where p: "p = (e, c')" by (cases p)
      from Inl True 1(2) have r: "r = Inl (e, c')" by (simp add: p)
      from Inl p have "exec c (fetch c) = Inl (e, c')" by simp
      from exec_not_NoSource[OF this] r show ?thesis by (simp add: fails_with_def)
    next
      case (Inr c')
      with True 1(2) have "main c' = Some r" by simp
      from 1(1)[OF this] show ?thesis .
    qed
  qed
qed

section \<open>Two sample programs\<close>

text \<open>
  Clamping: \<open>add r0,r1\<close> adds 255 to the 10 in \<open>r1\<close>, which clamps to 255 and sets \<open>ovfl\<close>;
  \<open>sub #50,r1\<close> leaves 205.
\<close>

lemma sample_clamp:
  "init jscpu (''mov r0,#255'' @ [CHR 0x0A] @ ''mov r1,#10'' @ [CHR 0x0A] @ ''add r0,r1''
       @ [CHR 0x0A] @ ''sub #50,r1'') =
   Some (Inr \<lparr>inst = [''mov r0,#255'', ''mov r1,#10'', ''add r0,r1'', ''sub #50,r1''], pEnd = 4,
     registers = (\<lambda>_. Num 0)(R0 := Num 255, R1 := Num 205, Ovfl := Num 1, PC := Num 4)\<rparr>)"
  by (simp add: init_eq main_step main_halt run_defs fun_upd_twist)

text \<open>A jump over the second line: \<open>r0\<close> stays 0.\<close>

lemma sample_jump:
  "init jscpu (''jmp #2'' @ [CHR 0x0A] @ ''mov r0,#1'' @ [CHR 0x0A] @ ''mov r1,#1'') =
   Some (Inr \<lparr>inst = [''jmp #2'', ''mov r0,#1'', ''mov r1,#1''], pEnd = 3,
     registers = (\<lambda>_. Num 0)(R1 := Num 1, PC := Num 3)\<rparr>)"
  by (simp add: init_eq main_step main_halt run_defs fun_upd_twist)

section \<open>Arithmetic handlers\<close>

text \<open>
  C2, as the source has it. \<open>add\<close> with resolved source value \<open>a\<close> against a destination
  register other than \<open>ovfl\<close> that holds \<open>b\<close>: when \<open>a + b \<ge> 256\<close> the destination
  becomes 255 and \<open>ovfl\<close> becomes 1; when \<open>a + b < 256\<close> the destination becomes \<open>a + b\<close>
  and no other register, \<open>ovfl\<close> included, changes. This holds for all integers whose sum
  is not below \<open>- 2 ^ 53\<close> (where the sum of two doubles is no longer exact), so for the
  non-negative ones.
\<close>

theorem add_clamps:
  assumes "parseArgs c arg 0 True 2 = Inr (Number (Num a))"
    and "parseArgs c arg 1 False 2 = Inr (Str d)"
    and "regOf d = Some r" and "registers c r = Num b" and "r \<noteq> Ovfl"
    and "- (2 ^ 53) \<le> a + b"
  shows "add c arg =
           Inr (if a + b \<ge> 256 then with_reg (with_reg c Ovfl (Num 1)) r (Num 255)
                else with_reg c r (Num (a + b)))"
proof (cases "256 \<le> a + b")
  case True
  then have "jsge (to_double (a + b)) (Num 256)" by (simp add: to_double_ge_256)
  with True assms parseArgs_reg[OF assms(2,3)] show ?thesis
    by (simp add: add_def Math_floor_def regSize_def setRegisterValue_ok)
next
  case False
  with assms(6) have "\<bar>a + b\<bar> \<le> 2 ^ 53" by simp
  then have e: "to_double (a + b) = Num (a + b)" by (rule to_double_exact)
  from False have "\<not> jsge (to_double (a + b)) (Num 256)" by (simp add: to_double_ge_256)
  with False e assms parseArgs_reg[OF assms(2,3)] show ?thesis
    by (simp add: add_def Math_floor_def regSize_def setRegisterValue_ok)
qed

theorem add_clamps_witness:
  "parseArgs (with_reg (reset jscpu) R0 (Num 100)) ''#200,r0'' 0 True 2 = Inr (Number (Num 200))
   \<and> parseArgs (with_reg (reset jscpu) R0 (Num 100)) ''#200,r0'' 1 False 2 = Inr (Str ''r0'')
   \<and> regOf ''r0'' = Some R0
   \<and> registers (with_reg (reset jscpu) R0 (Num 100)) R0 = Num 100
   \<and> R0 \<noteq> Ovfl
   \<and> add (with_reg (reset jscpu) R0 (Num 100)) ''#200,r0'' =
       Inr (with_reg (with_reg (with_reg (reset jscpu) R0 (Num 100)) Ovfl (Num 1)) R0 (Num 255))"
proof -
  let ?c = "with_reg (reset jscpu) R0 (Num 100)"
  have h1: "parseArgs ?c ''#200,r0'' 0 True 2 = Inr (Number (Num 200))"
    by (simp add: eval_defs)
  have h2: "parseArgs ?c ''#200,r0'' 1 False 2 = Inr (Str ''r0'')"
    by (simp add: eval_defs)
  have h3: "regOf ''r0'' = Some R0" by simp
  have h4: "registers ?c R0 = Num 100" by simp
  have h5: "R0 \<noteq> Ovfl" by simp
  have h6: "- (2 ^ 53) \<le> (200::int) + 100" by simp
  from add_clamps[OF h1 h2 h3 h4 h5 h6] h1 h2 h3 h4 h5 show ?thesis by simp
qed

text \<open>
  C2 as stated fails when the destination is \<open>ovfl\<close> itself: \<^verbatim>\<open>add #256,ovfl\<close> on a
  fresh bank has \<open>a = 256\<close> and \<open>b = 0\<close>, and leaves \<open>ovfl = 255\<close>, not 1, since the
  clamped result is stored over the flag.
\<close>

theorem add_ovfl_destination_counterexample:
  "parseArgs (reset jscpu) ''#256,ovfl'' 0 True 2 = Inr (Number (Num 256))
   \<and> registers (reset jscpu) Ovfl = Num 0
   \<and> add (reset jscpu) ''#256,ovfl'' = Inr (with_reg (reset jscpu) Ovfl (Num 255))
   \<and> registers (with_reg (reset jscpu) Ovfl (Num 255)) Ovfl \<noteq> Num 1"
  by (simp add: add_def eval_defs)

text \<open>
  C3, as the source has it. \<open>sub\<close> with resolved subtract value \<open>a\<close> against a destination
  register other than \<open>udfl\<close> that holds \<open>b\<close>: when \<open>b - a < 0\<close> the destination becomes 0
  and \<open>udfl\<close> becomes 1; when \<open>b - a \<ge> 0\<close> the destination becomes the double nearest to
  \<open>b - a\<close>, which is \<open>b - a\<close> itself up to \<open>2 ^ 53\<close>, and no other register, \<open>udfl\<close>
  included, changes.
\<close>

theorem sub_clamps:
  assumes "parseArgs c arg 0 True 2 = Inr (Number (Num a))"
    and "parseArgs c arg 1 False 2 = Inr (Str d)"
    and "regOf d = Some r" and "registers c r = Num b" and "r \<noteq> Udfl"
  shows "sub c arg =
           Inr (if b - a < 0 then with_reg (with_reg c Udfl (Num 1)) r (Num 0)
                else with_reg c r (to_double (b - a)))
         \<and> (b - a \<le> 2 ^ 53 \<longrightarrow>
              sub c arg =
                Inr (if b - a < 0 then with_reg (with_reg c Udfl (Num 1)) r (Num 0)
                     else with_reg c r (Num (b - a))))"
proof -
  have 1: "sub c arg =
      Inr (if b - a < 0 then with_reg (with_reg c Udfl (Num 1)) r (Num 0)
           else with_reg c r (to_double (b - a)))"
    using assms parseArgs_reg[OF assms(2,3)] to_double_lt_0[of "b - a"]
    by (simp add: sub_def Math_floor_def setRegisterValue_ok)
  have "to_double (b - a) = Num (b - a)" if "\<not> b - a < 0" and "b - a \<le> 2 ^ 53"
    using that by (intro to_double_exact) simp
  with 1 show ?thesis by auto
qed

theorem sub_clamps_witness:
  "parseArgs (with_reg (reset jscpu) R1 (Num 10)) ''#50,r1'' 0 True 2 = Inr (Number (Num 50))
   \<and> parseArgs (with_reg (reset jscpu) R1 (Num 10)) ''#50,r1'' 1 False 2 = Inr (Str ''r1'')
   \<and> regOf ''r1'' = Some R1
   \<and> registers (with_reg (reset jscpu) R1 (Num 10)) R1 = Num 10
   \<and> R1 \<noteq> Udfl
   \<and> sub (with_reg (reset jscpu) R1 (Num 10)) ''#50,r1'' =
       Inr (with_reg (with_reg (with_reg (reset jscpu) R1 (Num 10)) Udfl (Num 1)) R1 (Num 0))
   \<and> parseArgs (with_reg (reset jscpu) R1 (Num 255)) ''#50,r1'' 0 True 2 = Inr (Number (Num 50))
   \<and> sub (with_reg (reset jscpu) R1 (Num 255)) ''#50,r1'' =
       Inr (with_reg (with_reg (reset jscpu) R1 (Num 255)) R1 (Num 205))"
proof -
  let ?c = "with_reg (reset jscpu) R1 (Num 10)"
  let ?d = "with_reg (reset jscpu) R1 (Num 255)"
  have h1: "parseArgs ?c ''#50,r1'' 0 True 2 = Inr (Number (Num 50))"
    by (simp add: eval_defs)
  have h2: "parseArgs ?c ''#50,r1'' 1 False 2 = Inr (Str ''r1'')"
    by (simp add: eval_defs)
  have h3: "regOf ''r1'' = Some R1" by simp
  have h4: "registers ?c R1 = Num 10" by simp
  have h5: "R1 \<noteq> Udfl" by simp
  have g1: "parseArgs ?d ''#50,r1'' 0 True 2 = Inr (Number (Num 50))"
    by (simp add: eval_defs)
  have g2: "parseArgs ?d ''#50,r1'' 1 False 2 = Inr (Str ''r1'')"
    by (simp add: eval_defs)
  have g4: "registers ?d R1 = Num 255" by simp
  have b: "(255::int) - 50 \<le> 2 ^ 53" by simp
  have "sub ?c ''#50,r1'' = Inr (with_reg (with_reg ?c Udfl (Num 1)) R1 (Num 0))"
    using sub_clamps[OF h1 h2 h3 h4 h5, THEN conjunct1] by simp
  moreover have "sub ?d ''#50,r1'' = Inr (with_reg ?d R1 (Num 205))"
    using sub_clamps[OF g1 g2 h3 g4 h5, THEN conjunct2, THEN mp, OF b] by simp
  ultimately show ?thesis using h1 h2 h3 h4 h5 g1 by simp
qed

text \<open>
  C3 as stated fails when the destination is \<open>udfl\<close> itself: \<^verbatim>\<open>sub #5,udfl\<close> on a fresh
  bank has \<open>a = 5\<close> and \<open>b = 0\<close>, so \<open>b - a < 0\<close>, and leaves \<open>udfl = 0\<close>, not 1, since the
  clamped result 0 is stored over the flag. It also fails above \<open>2 ^ 53\<close>: \<^verbatim>\<open>sub #1,r0\<close> with
  \<open>r0 = 2 ^ 54\<close> leaves \<open>r0 = 2 ^ 54\<close>, not \<open>2 ^ 54 - 1\<close>, which is no double.
\<close>

theorem sub_udfl_destination_counterexample:
  "parseArgs (reset jscpu) ''#5,udfl'' 0 True 2 = Inr (Number (Num 5))
   \<and> registers (reset jscpu) Udfl = Num 0
   \<and> sub (reset jscpu) ''#5,udfl'' = Inr (with_reg (reset jscpu) Udfl (Num 0))
   \<and> registers (with_reg (reset jscpu) Udfl (Num 0)) Udfl \<noteq> Num 1
   \<and> parseArgs (reset jscpu) ''r0,#18014398509481984'' 1 True 2 =
       Inr (Number (Num 18014398509481984))
   \<and> sub (with_reg (reset jscpu) R0 (Num 18014398509481984)) ''#1,r0'' =
       Inr (with_reg (with_reg (reset jscpu) R0 (Num 18014398509481984)) R0
              (Num 18014398509481984))
   \<and> Num 18014398509481984 \<noteq> Num (18014398509481984 - 1)"
  by (simp add: sub_def eval_defs to_double_def round_nat_def shift_for_small shift_for_big)

section \<open>Data movement and comparison\<close>

text \<open>An immediate written with decimal digits resolves to the double nearest to its value.\<close>

lemma digit_code:
  "digitVal ch < 10 \<Longrightarrow> 48 \<le> (of_char ch :: nat) \<and> (of_char ch :: nat) \<le> 57"
  by (auto simp: digitVal_def Let_def split: if_splits)

lemma digit_plain:
  assumes "digitVal ch < 10"
  shows "\<not> isWhite ch" and "ch \<noteq> CHR ''-''" and "ch \<noteq> CHR ''+''" and "ch \<noteq> CHR ''x''"
    and "ch \<noteq> CHR ''X''" and "ch \<noteq> CHR '',''"
  using digit_code[OF assms] by (auto simp: isWhite_def)

lemma parseInt_digits:
  assumes "ds \<noteq> []" and "\<forall>ch \<in> set ds. digitVal ch < 10"
  shows "parseInt ds = to_double (int (digits_value 10 ds))"
proof -
  from assms(1) obtain x xs where ds: "ds = x # xs" by (cases ds) auto
  with assms(2) have x: "digitVal x < 10" by simp
  have nohex: "take 2 ds \<noteq> ''0x'' \<and> take 2 ds \<noteq> ''0X''"
  proof (cases xs)
    case Nil
    with ds show ?thesis by simp
  next
    case (Cons y ys)
    with ds assms(2) have "digitVal y < 10" by simp
    from digit_plain(4,5)[OF this] ds Cons show ?thesis by simp
  qed
  have all: "takeWhile (\<lambda>ch. digitVal ch < 10) ds = ds"
    using assms(2) by (simp add: takeWhile_eq_all_conv)
  from digit_plain(1,2,3)[OF x] ds have s1: "dropWhile isWhite ds = ds"
    and sg: "hd ds \<noteq> CHR ''-''" "hd ds \<noteq> CHR ''+''" by simp_all
  from s1 sg nohex assms(1) show ?thesis
    by (simp add: parseInt_def Let_def all del: takeWhile_eq_all_conv)
qed

lemma split_acc_piece:
  "sep \<notin> set xs \<Longrightarrow> split_acc sep cur (xs @ sep # ys) = (cur @ xs) # split_acc sep [] ys"
  by (induction xs arbitrary: cur) auto

lemma split_acc_last: "sep \<notin> set xs \<Longrightarrow> split_acc sep cur xs = [cur @ xs]"
  by (induction xs arbitrary: cur) auto

lemma regOf_no_comma: "regOf d = Some r \<Longrightarrow> CHR '','' \<notin> set d"
  by (auto simp: regOf_def split: if_splits)

lemma split_immediate:
  assumes "regOf d = Some r" and "\<forall>ch \<in> set ds. digitVal ch < 10"
  shows "split_js CHR '','' (d @ '',#'' @ ds) = [d, ''#'' @ ds]"
proof -
  from assms(2) have "CHR '','' \<notin> set (''#'' @ ds)" using digit_plain(6) by auto
  then have "split_acc CHR '','' [] (''#'' @ ds) = [''#'' @ ds]"
    using split_acc_last[of "CHR '',''" "''#'' @ ds" "[]"] by simp
  with split_acc_piece[OF regOf_no_comma[OF assms(1)], of "[]" "''#'' @ ds"] show ?thesis
    by (simp add: split_js_def)
qed

text \<open>
  C8, as the source has it. \<open>mov\<close> with a valid destination register and a second operand
  that resolves to \<open>v\<close> stores \<open>v\<close> as it is, whatever its size, and changes no other
  register: \<open>ovfl\<close> and \<open>udfl\<close> keep their values unless one of them is the destination.
  An immediate written with decimal digits is stored as the double nearest to its value:
  unchanged up to \<open>2 ^ 53\<close>, so unchanged above 255.
\<close>

theorem mov_verbatim:
  "(parseArgs c arg 0 False 2 = Inr (Str d) \<and> regOf d = Some r
      \<and> parseArgs c arg 1 True 2 = Inr (Number v) \<longrightarrow>
        mov c arg = Inr (with_reg c r v)
        \<and> registers (state_of (mov c arg)) r = v
        \<and> (r \<noteq> Ovfl \<longrightarrow> registers (state_of (mov c arg)) Ovfl = registers c Ovfl)
        \<and> (r \<noteq> Udfl \<longrightarrow> registers (state_of (mov c arg)) Udfl = registers c Udfl))
   \<and> (regOf d = Some r \<and> ds \<noteq> [] \<and> (\<forall>ch \<in> set ds. digitVal ch < 10) \<longrightarrow>
        mov c (d @ '',#'' @ ds) = Inr (with_reg c r (to_double (int (digits_value 10 ds))))
        \<and> (digits_value 10 ds \<le> 2 ^ 53 \<longrightarrow>
             mov c (d @ '',#'' @ ds) = Inr (with_reg c r (Num (int (digits_value 10 ds))))))"
proof (intro conjI impI)
  assume h: "parseArgs c arg 0 False 2 = Inr (Str d) \<and> regOf d = Some r
      \<and> parseArgs c arg 1 True 2 = Inr (Number v)"
  then have m: "mov c arg = Inr (with_reg c r v)"
    by (simp add: mov_def setRegisterValue_ok)
  then show "mov c arg = Inr (with_reg c r v)" .
  from m show "registers (state_of (mov c arg)) r = v" by simp
  {
    assume "r \<noteq> Ovfl"
    with m show "registers (state_of (mov c arg)) Ovfl = registers c Ovfl" by simp
  }
  {
    assume "r \<noteq> Udfl"
    with m show "registers (state_of (mov c arg)) Udfl = registers c Udfl" by simp
  }
next
  assume h: "regOf d = Some r \<and> ds \<noteq> [] \<and> (\<forall>ch \<in> set ds. digitVal ch < 10)"
  then have sp: "split_js CHR '','' (d @ '',#'' @ ds) = [d, ''#'' @ ds]"
    using split_immediate[of d r ds] by simp
  from h have pi: "parseInt ds = to_double (int (digits_value 10 ds))"
    by (simp add: parseInt_digits)
  from h sp pi show m: "mov c (d @ '',#'' @ ds) =
      Inr (with_reg c r (to_double (int (digits_value 10 ds))))"
    by (simp add: mov_def parseArgs_def setRegisterValue_ok)
  {
    assume "digits_value 10 ds \<le> 2 ^ 53"
    then have "\<bar>int (digits_value 10 ds)\<bar> \<le> 2 ^ 53"
      by (metis abs_of_nat of_nat_le_iff of_nat_numeral of_nat_power)
    then have "to_double (int (digits_value 10 ds)) = Num (int (digits_value 10 ds))"
      by (rule to_double_exact)
    with m show "mov c (d @ '',#'' @ ds) = Inr (with_reg c r (Num (int (digits_value 10 ds))))"
      by simp
  }
qed

theorem mov_verbatim_witness:
  "parseArgs (reset jscpu) ''r0,#300'' 0 False 2 = Inr (Str ''r0'')
   \<and> regOf ''r0'' = Some R0
   \<and> parseArgs (reset jscpu) ''r0,#300'' 1 True 2 = Inr (Number (Num 300))
   \<and> digits_value 10 ''300'' = 300
   \<and> mov (reset jscpu) ''r0,#300'' = Inr (with_reg (reset jscpu) R0 (Num 300))
   \<and> registers (state_of (mov (reset jscpu) ''r0,#300'')) R0 = Num 300
   \<and> registers (state_of (mov (reset jscpu) ''r0,#300'')) Ovfl = Num 0
   \<and> registers (state_of (mov (reset jscpu) ''r0,#300'')) Udfl = Num 0"
proof -
  let ?c = "reset jscpu"
  have h1: "parseArgs ?c ''r0,#300'' 0 False 2 = Inr (Str ''r0'')"
    by (simp add: eval_defs)
  have h2: "regOf ''r0'' = Some R0" by simp
  have h3: "parseArgs ?c ''r0,#300'' 1 True 2 = Inr (Number (Num 300))"
    by (simp add: eval_defs)
  have dv: "digits_value 10 ''300'' = 300" by (simp add: digits_value_def digitVal_def)
  have dg: "regOf ''r0'' = Some R0 \<and> ''300'' \<noteq> [] \<and> (\<forall>ch \<in> set ''300''. digitVal ch < 10)"
    by (simp add: digitVal_def)
  have b: "digits_value 10 ''300'' \<le> 2 ^ 53" by (simp add: dv)
  note M = mov_verbatim[of ?c "''r0,#300''" "''r0''" R0 "Num 300" "''300''"]
  from M[THEN conjunct2, THEN mp, OF dg, THEN conjunct2, THEN mp, OF b]
  have "mov ?c ''r0,#300'' = Inr (with_reg ?c R0 (Num 300))" by (simp add: dv)
  with M h1 h2 h3 dv show ?thesis by simp
qed

text \<open>
  C8 as stated fails when the destination is a flag: \<^verbatim>\<open>mov ovfl,#5\<close> on a fresh bank
  changes \<open>ovfl\<close> from 0 to 5. It also fails for an immediate that is no double:
  \<^verbatim>\<open>mov r0,#9007199254740993\<close> stores 9007199254740992.
\<close>

theorem mov_flag_destination_counterexample:
  "registers (reset jscpu) Ovfl = Num 0
   \<and> mov (reset jscpu) ''ovfl,#5'' = Inr (with_reg (reset jscpu) Ovfl (Num 5))
   \<and> registers (with_reg (reset jscpu) Ovfl (Num 5)) Ovfl \<noteq> registers (reset jscpu) Ovfl
   \<and> digits_value 10 ''9007199254740993'' = 9007199254740993
   \<and> mov (reset jscpu) ''r0,#9007199254740993'' =
       Inr (with_reg (reset jscpu) R0 (Num 9007199254740992))
   \<and> Num 9007199254740992 \<noteq> Num 9007199254740993"
  by (simp add: mov_def eval_defs to_double_def round_nat_def shift_for_small shift_for_big)



section \<open>Branches\<close>

lemma jnz_eq: "jnz c arg = (if registers c S \<noteq> Num 0 then jmp c arg else Inr c)"
  by (simp add: jnz_def getRegisterValue_ok jseq_zero)

lemma jze_eq: "jze c arg = (if registers c S = Num 0 then jmp c arg else Inr c)"
  by (simp add: jze_def getRegisterValue_ok jseq_zero)

lemma jmp_out_of_bounds:
  "parseArgs c arg 0 True 1 = Inr (Number (Num t)) \<Longrightarrow> t < 0 \<or> pEnd c < t \<Longrightarrow>
   jmp c arg = Inl (JumpOutOfBounds (Num t), c)"
  by (auto simp: jmp_def jsgt_def)

text \<open>An infinite target, which a long enough immediate gives, is out of bounds as well.\<close>

lemma jmp_infinite:
  "parseArgs c arg 0 True 1 = Inr (Number x) \<Longrightarrow> x = PosInf \<or> x = NegInf \<Longrightarrow>
   jmp c arg = Inl (JumpOutOfBounds x, c)"
  by (auto simp: jmp_def jsgt_def)

lemma jmp_in_bounds:
  "parseArgs c arg 0 True 1 = Inr (Number (Num t)) \<Longrightarrow> 0 \<le> t \<Longrightarrow> t \<le> pEnd c \<Longrightarrow>
   pEnd c \<le> 2 ^ 53 \<Longrightarrow> jmp c arg = Inr (with_reg c PC (Num (t - 1)))"
  by (auto simp: jmp_def jsgt_def with_reg_def to_double_exact)

lemma pc_increment_with_reg:
  "0 \<le> t \<Longrightarrow> t \<le> 2 ^ 53 \<Longrightarrow> pc_increment (with_reg c PC (Num (t - 1))) = with_reg c PC (Num t)"
  by (simp add: pc_increment_def with_reg_def to_double_exact)

lemma pc_increment_at:
  "registers c PC = Num k \<Longrightarrow> \<bar>k\<bar> < 2 ^ 53 \<Longrightarrow> pc_increment c = with_reg c PC (Num (k + 1))"
  by (simp add: pc_increment_def with_reg_def to_double_exact)

lemma fetch_with_reg:
  "0 \<le> t \<Longrightarrow> t < int (length (inst c)) \<Longrightarrow>
   fetch (with_reg c PC (Num t)) = Some (inst c ! nat t)"
  by (simp add: fetch_def nat_less_iff)

text \<open>
  C4, as the source has it. For every \<open>jmp\<close> whose target resolves to an integer \<open>t\<close>: when
  \<open>t < 0\<close> or \<open>t > pEnd\<close> the handler throws the out-of-bounds error and writes nothing;
  otherwise it sets \<open>pc\<close> to \<open>t - 1\<close>. When the loop of a loaded program (\<open>pEnd\<close> the number
  of lines) executes such a line, the error ends the run; for \<open>0 \<le> t \<le> pEnd\<close> the
  instruction leaves \<open>pc = t\<close> after the increment and nothing else changed; for
  \<open>t < pEnd\<close> the next instruction executed is the line of index \<open>t\<close>; for \<open>t = pEnd\<close>
  the loop returns at once, without an error. \<open>pEnd\<close> is the length of an array, which is
  below \<open>2 ^ 32\<close>; the theorem asks for no more than \<open>pEnd \<le> 2 ^ 53\<close>, where \<open>t - 1\<close> and the
  increment are exact.
\<close>

theorem jmp_target:
  assumes tgt: "parseArgs c arg 0 True 1 = Inr (Number (Num t))"
  shows "(t < 0 \<or> pEnd c < t \<longrightarrow> jmp c arg = Inl (JumpOutOfBounds (Num t), c))
   \<and> (0 \<le> t \<and> t \<le> pEnd c \<and> pEnd c \<le> 2 ^ 53 \<longrightarrow>
        jmp c arg = Inr (with_reg c PC (Num (t - 1))))
   \<and> (jslt (registers c PC) (Num (pEnd c)) \<and> fetch c = Some line \<and> decodes line ''jmp'' arg
        \<and> pEnd c = int (length (inst c)) \<and> pEnd c \<le> 2 ^ 53 \<longrightarrow>
         (t < 0 \<or> pEnd c < t \<longrightarrow> main c = Some (Inl (JumpOutOfBounds (Num t), c)))
       \<and> (0 \<le> t \<and> t \<le> pEnd c \<longrightarrow>
            exec c (Some line) = Inr (with_reg c PC (Num t))
            \<and> main c = main (with_reg c PC (Num t)))
       \<and> (0 \<le> t \<and> t < pEnd c \<longrightarrow>
            fetch (with_reg c PC (Num t)) = Some (inst c ! nat t)
            \<and> main c = (case exec (with_reg c PC (Num t)) (Some (inst c ! nat t)) of
                          Inl e \<Rightarrow> Some (Inl e) | Inr c' \<Rightarrow> main c'))
       \<and> (t = pEnd c \<longrightarrow> main c = Some (Inr (with_reg c PC (Num t)))))"
proof (intro conjI impI)
  assume "t < 0 \<or> pEnd c < t"
  then show "jmp c arg = Inl (JumpOutOfBounds (Num t), c)"
    by (rule jmp_out_of_bounds[OF tgt])
next
  assume "0 \<le> t \<and> t \<le> pEnd c \<and> pEnd c \<le> 2 ^ 53"
  then show "jmp c arg = Inr (with_reg c PC (Num (t - 1)))"
    by (simp add: jmp_in_bounds[OF tgt])
next
  assume ctx: "jslt (registers c PC) (Num (pEnd c)) \<and> fetch c = Some line \<and>
      decodes line ''jmp'' arg \<and> pEnd c = int (length (inst c)) \<and> pEnd c \<le> 2 ^ 53"
  then have ex: "exec c (Some line) =
      (case jmp c arg of Inl e \<Rightarrow> Inl e | Inr c' \<Rightarrow> Inr (pc_increment c'))"
    by (simp add: exec_decodes[where opc="''jmp''"])
  from ctx have r: "jslt (registers c PC) (Num (pEnd c))" and f: "fetch c = Some line"
    and small: "pEnd c \<le> 2 ^ 53" and len: "pEnd c = int (length (inst c))"
    by blast+
  have st: "main c = (case exec c (Some line) of Inl e \<Rightarrow> Some (Inl e) | Inr c' \<Rightarrow> main c')"
    using main_step[OF r] by (simp only: f)
  have inb: "exec c (Some line) = Inr (with_reg c PC (Num t))" if "0 \<le> t" and "t \<le> pEnd c"
  proof -
    from that small have "t \<le> 2 ^ 53" by linarith
    with that small show ?thesis
      by (simp add: ex jmp_in_bounds[OF tgt] pc_increment_with_reg)
  qed
  {
    assume "t < 0 \<or> pEnd c < t"
    then show "main c = Some (Inl (JumpOutOfBounds (Num t), c))"
      by (simp add: st ex jmp_out_of_bounds[OF tgt])
  }
  {
    assume "0 \<le> t \<and> t \<le> pEnd c"
    then show "exec c (Some line) = Inr (with_reg c PC (Num t))"
      by (simp add: inb)
  }
  {
    assume "0 \<le> t \<and> t \<le> pEnd c"
    then show "main c = main (with_reg c PC (Num t))"
      by (simp add: st inb)
  }
  {
    assume b: "0 \<le> t \<and> t < pEnd c"
    with len show "fetch (with_reg c PC (Num t)) = Some (inst c ! nat t)"
      using fetch_with_reg[of t c] by simp
  }
  {
    assume b: "0 \<le> t \<and> t < pEnd c"
    with len have f: "fetch (with_reg c PC (Num t)) = Some (inst c ! nat t)"
      using fetch_with_reg[of t c] by simp
    from b have "main (with_reg c PC (Num t)) =
        (case exec (with_reg c PC (Num t)) (fetch (with_reg c PC (Num t))) of
           Inl e \<Rightarrow> Some (Inl e) | Inr c' \<Rightarrow> main c')"
      by (simp add: main_step)
    with b f show "main c = (case exec (with_reg c PC (Num t)) (Some (inst c ! nat t)) of
                          Inl e \<Rightarrow> Some (Inl e) | Inr c' \<Rightarrow> main c')"
      by (simp add: st inb)
  }
  {
    assume b: "t = pEnd c"
    with len have "0 \<le> t" by simp
    with b show "main c = Some (Inr (with_reg c PC (Num t)))"
      by (simp add: st inb main_halt)
  }
qed

theorem jmp_target_witness:
  "parseArgs ((reset jscpu)\<lparr>inst := [''jmp #2'', ''mov r0,#1'', ''mov r1,#1''], pEnd := 3\<rparr>)
      ''#2'' 0 True 1 = Inr (Number (Num 2))
   \<and> fetch (with_reg ((reset jscpu)\<lparr>inst := [''jmp #2'', ''mov r0,#1'', ''mov r1,#1''], pEnd := 3\<rparr>)
        PC (Num 2)) = Some ''mov r1,#1''
   \<and> main ((reset jscpu)\<lparr>inst := [''jmp #2'', ''mov r0,#1'', ''mov r1,#1''], pEnd := 3\<rparr>) =
       main (with_reg ((reset jscpu)\<lparr>inst := [''jmp #2'', ''mov r0,#1'', ''mov r1,#1''], pEnd := 3\<rparr>)
         PC (Num 2))
   \<and> main ((reset jscpu)\<lparr>inst := [''jmp #1''], pEnd := 1\<rparr>) =
       Some (Inr (with_reg ((reset jscpu)\<lparr>inst := [''jmp #1''], pEnd := 1\<rparr>) PC (Num 1)))
   \<and> main ((reset jscpu)\<lparr>inst := [''jmp #5''], pEnd := 1\<rparr>) =
       Some (Inl (JumpOutOfBounds (Num 5), (reset jscpu)\<lparr>inst := [''jmp #5''], pEnd := 1\<rparr>))"
proof -
  let ?a = "(reset jscpu)\<lparr>inst := [''jmp #2'', ''mov r0,#1'', ''mov r1,#1''], pEnd := 3\<rparr>"
  let ?b = "(reset jscpu)\<lparr>inst := [''jmp #1''], pEnd := 1\<rparr>"
  let ?d = "(reset jscpu)\<lparr>inst := [''jmp #5''], pEnd := 1\<rparr>"
  have ta: "parseArgs ?a ''#2'' 0 True 1 = Inr (Number (Num 2))" by (simp add: eval_defs)
  have tb: "parseArgs ?b ''#1'' 0 True 1 = Inr (Number (Num 1))" by (simp add: eval_defs)
  have td: "parseArgs ?d ''#5'' 0 True 1 = Inr (Number (Num 5))" by (simp add: eval_defs)
  have ca: "jslt (registers ?a PC) (Num (pEnd ?a)) \<and> fetch ?a = Some ''jmp #2'' \<and>
      decodes ''jmp #2'' ''jmp'' ''#2'' \<and> pEnd ?a = int (length (inst ?a)) \<and>
      pEnd ?a \<le> 2 ^ 53"
    by (simp add: fetch_def decodes_def split_js_def trim_def isWhite_def)
  have cb: "jslt (registers ?b PC) (Num (pEnd ?b)) \<and> fetch ?b = Some ''jmp #1'' \<and>
      decodes ''jmp #1'' ''jmp'' ''#1'' \<and> pEnd ?b = int (length (inst ?b)) \<and>
      pEnd ?b \<le> 2 ^ 53"
    by (simp add: fetch_def decodes_def split_js_def trim_def isWhite_def)
  have cd: "jslt (registers ?d PC) (Num (pEnd ?d)) \<and> fetch ?d = Some ''jmp #5'' \<and>
      decodes ''jmp #5'' ''jmp'' ''#5'' \<and> pEnd ?d = int (length (inst ?d)) \<and>
      pEnd ?d \<le> 2 ^ 53"
    by (simp add: fetch_def decodes_def split_js_def trim_def isWhite_def)
  have ra: "0 \<le> (2::int) \<and> 2 \<le> pEnd ?a" by simp
  have ra': "0 \<le> (2::int) \<and> 2 < pEnd ?a" by simp
  have rb: "(1::int) = pEnd ?b" by simp
  have rd: "(5::int) < 0 \<or> pEnd ?d < 5" by simp
  note Ja = jmp_target[OF ta, of "''jmp #2''", THEN conjunct2, THEN conjunct2, THEN mp, OF ca]
  note Jb = jmp_target[OF tb, of "''jmp #1''", THEN conjunct2, THEN conjunct2, THEN mp, OF cb]
  note Jd = jmp_target[OF td, of "''jmp #5''", THEN conjunct2, THEN conjunct2, THEN mp, OF cd]
  have a1: "main ?a = main (with_reg ?a PC (Num 2))"
    by (rule Ja[THEN conjunct2, THEN conjunct1, THEN mp, OF ra, THEN conjunct2])
  have "fetch (with_reg ?a PC (Num 2)) = Some (inst ?a ! nat 2)"
    by (rule Ja[THEN conjunct2, THEN conjunct2, THEN conjunct1, THEN mp, OF ra', THEN conjunct1])
  then have a2: "fetch (with_reg ?a PC (Num 2)) = Some ''mov r1,#1''" by simp
  have b1: "main ?b = Some (Inr (with_reg ?b PC (Num 1)))"
    by (rule Jb[THEN conjunct2, THEN conjunct2, THEN conjunct2, THEN mp, OF rb])
  have d1: "main ?d = Some (Inl (JumpOutOfBounds (Num 5), ?d))"
    by (rule Jd[THEN conjunct1, THEN mp, OF rd])
  show ?thesis by (intro conjI) (rule ta a2 a1 b1 d1)+
qed

text \<open>
  C4 as stated fails for a target that is not a number: \<^verbatim>\<open>jmp #x\<close> resolves to NaN, which
  is neither below 0 nor above \<open>pEnd\<close>, so nothing is thrown; \<open>pc\<close> becomes NaN and the loop
  ends with the second line never executed, although the target is not \<open>pEnd\<close>.
\<close>

theorem jmp_nan_counterexample:
  "parseArgs ((reset jscpu)\<lparr>inst := [''jmp #x'', ''mov r0,#1''], pEnd := 2\<rparr>) ''#x'' 0 True 1 =
     Inr (Number NaN)
   \<and> \<not> jslt NaN (Num 0) \<and> \<not> jsgt NaN (Num 2)
   \<and> init jscpu (''jmp #x'' @ [CHR 0x0A] @ ''mov r0,#1'') =
       Some (Inr (with_reg ((reset jscpu)\<lparr>inst := [''jmp #x'', ''mov r0,#1''], pEnd := 2\<rparr>) PC NaN))"
  by (simp add: init_eq main_step main_halt run_defs)

text \<open>
  C5. \<open>jnz\<close> is \<open>jmp\<close> when \<open>s\<close> is not 0 and does nothing when it is; \<open>jze\<close> is \<open>jmp\<close>
  when \<open>s\<close> is 0 and does nothing when it is not. Executed as an instruction at \<open>pc = k\<close>,
  the one that does not branch leaves the instance as it was with \<open>pc = k + 1\<close>; the one
  that branches does what the \<open>jmp\<close> line with the same operand does: it leaves the
  instance as it was with \<open>pc = t\<close> for a target \<open>t\<close> in bounds, and throws the
  out-of-bounds error otherwise. (\<open>pc\<close> is the index of a line when an instruction runs and
  \<open>pEnd\<close> the length of an array: both are far below \<open>2 ^ 53\<close>, where the increment is
  exact.)
\<close>

theorem jnz_jze_branch:
  "jnz c arg = (if registers c S \<noteq> Num 0 then jmp c arg else Inr c)
   \<and> jze c arg = (if registers c S = Num 0 then jmp c arg else Inr c)
   \<and> (decodes line ''jnz'' arg \<and> registers c S = Num 0 \<longrightarrow>
        exec c (Some line) = Inr (pc_increment c))
   \<and> (decodes line ''jze'' arg \<and> registers c S \<noteq> Num 0 \<longrightarrow>
        exec c (Some line) = Inr (pc_increment c))
   \<and> (decodes line ''jnz'' arg \<and> decodes line' ''jmp'' arg \<and> registers c S \<noteq> Num 0 \<longrightarrow>
        exec c (Some line) = exec c (Some line'))
   \<and> (decodes line ''jze'' arg \<and> decodes line' ''jmp'' arg \<and> registers c S = Num 0 \<longrightarrow>
        exec c (Some line) = exec c (Some line'))
   \<and> (decodes line ''jnz'' arg \<and> registers c S = Num 0 \<and> registers c PC = Num k
        \<and> \<bar>k\<bar> < 2 ^ 53 \<longrightarrow>
        exec c (Some line) = Inr (with_reg c PC (Num (k + 1))))
   \<and> (decodes line ''jze'' arg \<and> registers c S \<noteq> Num 0 \<and> registers c PC = Num k
        \<and> \<bar>k\<bar> < 2 ^ 53 \<longrightarrow>
        exec c (Some line) = Inr (with_reg c PC (Num (k + 1))))
   \<and> (decodes line ''jnz'' arg \<and> registers c S \<noteq> Num 0
        \<and> parseArgs c arg 0 True 1 = Inr (Number (Num t)) \<longrightarrow>
        (0 \<le> t \<and> t \<le> pEnd c \<and> pEnd c \<le> 2 ^ 53 \<longrightarrow>
           exec c (Some line) = Inr (with_reg c PC (Num t)))
        \<and> (t < 0 \<or> pEnd c < t \<longrightarrow>
           exec c (Some line) = Inl (JumpOutOfBounds (Num t), c)))
   \<and> (decodes line ''jze'' arg \<and> registers c S = Num 0
        \<and> parseArgs c arg 0 True 1 = Inr (Number (Num t)) \<longrightarrow>
        (0 \<le> t \<and> t \<le> pEnd c \<and> pEnd c \<le> 2 ^ 53 \<longrightarrow>
           exec c (Some line) = Inr (with_reg c PC (Num t)))
        \<and> (t < 0 \<or> pEnd c < t \<longrightarrow>
           exec c (Some line) = Inl (JumpOutOfBounds (Num t), c)))"
proof -
  have nz: "exec c (Some line) =
      (case jnz c arg of Inl e \<Rightarrow> Inl e | Inr c' \<Rightarrow> Inr (pc_increment c'))"
    if "decodes line ''jnz'' arg"
    using exec_decodes[OF that, of jnz c] by simp
  have ze: "exec c (Some line) =
      (case jze c arg of Inl e \<Rightarrow> Inl e | Inr c' \<Rightarrow> Inr (pc_increment c'))"
    if "decodes line ''jze'' arg"
    using exec_decodes[OF that, of jze c] by simp
  have jm: "exec c (Some line') =
      (case jmp c arg of Inl e \<Rightarrow> Inl e | Inr c' \<Rightarrow> Inr (pc_increment c'))"
    if "decodes line' ''jmp'' arg"
    using exec_decodes[OF that, of jmp c] by simp
  have taken: "(case jmp c arg of Inl e \<Rightarrow> Inl e | Inr c' \<Rightarrow> Inr (pc_increment c')) =
      Inr (with_reg c PC (Num t))"
    if "parseArgs c arg 0 True 1 = Inr (Number (Num t))" and "0 \<le> t" and "t \<le> pEnd c"
      and "pEnd c \<le> 2 ^ 53"
  proof -
    from that have "t \<le> 2 ^ 53" by linarith
    with that show ?thesis
      by (simp add: jmp_in_bounds pc_increment_with_reg)
  qed
  have refused: "(case jmp c arg of Inl e \<Rightarrow> Inl e | Inr c' \<Rightarrow> Inr (pc_increment c')) =
      Inl (JumpOutOfBounds (Num t), c)"
    if "parseArgs c arg 0 True 1 = Inr (Number (Num t))" and "t < 0 \<or> pEnd c < t"
    using that by (simp add: jmp_out_of_bounds)
  show ?thesis
  proof (intro conjI impI)
    show "jnz c arg = (if registers c S \<noteq> Num 0 then jmp c arg else Inr c)"
      by (rule jnz_eq)
    show "jze c arg = (if registers c S = Num 0 then jmp c arg else Inr c)"
      by (rule jze_eq)
  next
    assume "decodes line ''jnz'' arg \<and> registers c S = Num 0"
    then show "exec c (Some line) = Inr (pc_increment c)"
      by (simp add: nz jnz_eq)
  next
    assume "decodes line ''jze'' arg \<and> registers c S \<noteq> Num 0"
    then show "exec c (Some line) = Inr (pc_increment c)"
      by (simp add: ze jze_eq)
  next
    assume "decodes line ''jnz'' arg \<and> decodes line' ''jmp'' arg \<and> registers c S \<noteq> Num 0"
    then show "exec c (Some line) = exec c (Some line')"
      by (simp add: nz jm jnz_eq)
  next
    assume "decodes line ''jze'' arg \<and> decodes line' ''jmp'' arg \<and> registers c S = Num 0"
    then show "exec c (Some line) = exec c (Some line')"
      by (simp add: ze jm jze_eq)
  next
    assume "decodes line ''jnz'' arg \<and> registers c S = Num 0 \<and> registers c PC = Num k
        \<and> \<bar>k\<bar> < 2 ^ 53"
    then show "exec c (Some line) = Inr (with_reg c PC (Num (k + 1)))"
      by (simp add: nz jnz_eq pc_increment_at)
  next
    assume "decodes line ''jze'' arg \<and> registers c S \<noteq> Num 0 \<and> registers c PC = Num k
        \<and> \<bar>k\<bar> < 2 ^ 53"
    then show "exec c (Some line) = Inr (with_reg c PC (Num (k + 1)))"
      by (simp add: ze jze_eq pc_increment_at)
  next
    assume h: "decodes line ''jnz'' arg \<and> registers c S \<noteq> Num 0
        \<and> parseArgs c arg 0 True 1 = Inr (Number (Num t))"
    {
      assume "0 \<le> t \<and> t \<le> pEnd c \<and> pEnd c \<le> 2 ^ 53"
      with h show "exec c (Some line) = Inr (with_reg c PC (Num t))"
        by (simp add: nz jnz_eq taken)
    }
    {
      assume "t < 0 \<or> pEnd c < t"
      with h show "exec c (Some line) = Inl (JumpOutOfBounds (Num t), c)"
        by (simp add: nz jnz_eq refused)
    }
  next
    assume h: "decodes line ''jze'' arg \<and> registers c S = Num 0
        \<and> parseArgs c arg 0 True 1 = Inr (Number (Num t))"
    {
      assume "0 \<le> t \<and> t \<le> pEnd c \<and> pEnd c \<le> 2 ^ 53"
      with h show "exec c (Some line) = Inr (with_reg c PC (Num t))"
        by (simp add: ze jze_eq taken)
    }
    {
      assume "t < 0 \<or> pEnd c < t"
      with h show "exec c (Some line) = Inl (JumpOutOfBounds (Num t), c)"
        by (simp add: ze jze_eq refused)
    }
  qed
qed

theorem jnz_jze_branch_witness:
  "decodes ''jnz #5'' ''jnz'' ''#5''
   \<and> registers (with_reg (reset jscpu) PC (Num 3)) S = Num 0
   \<and> exec (with_reg (reset jscpu) PC (Num 3)) (Some ''jnz #5'') =
       Inr (with_reg (with_reg (reset jscpu) PC (Num 3)) PC (Num 4))
   \<and> decodes ''jze #7'' ''jze'' ''#7''
   \<and> parseArgs (with_reg ((reset jscpu)\<lparr>pEnd := 9\<rparr>) PC (Num 3)) ''#7'' 0 True 1 =
       Inr (Number (Num 7))
   \<and> exec (with_reg ((reset jscpu)\<lparr>pEnd := 9\<rparr>) PC (Num 3)) (Some ''jze #7'') =
       Inr (with_reg (with_reg ((reset jscpu)\<lparr>pEnd := 9\<rparr>) PC (Num 3)) PC (Num 7))
   \<and> exec (with_reg ((reset jscpu)\<lparr>pEnd := 9\<rparr>) PC (Num 3)) (Some ''jze #12'') =
       Inl (JumpOutOfBounds (Num 12), with_reg ((reset jscpu)\<lparr>pEnd := 9\<rparr>) PC (Num 3))"
proof -
  let ?a = "with_reg (reset jscpu) PC (Num 3)"
  let ?b = "with_reg ((reset jscpu)\<lparr>pEnd := 9\<rparr>) PC (Num 3)"
  have d1: "decodes ''jnz #5'' ''jnz'' ''#5''"
    by (simp add: decodes_def split_js_def trim_def isWhite_def)
  have d2: "decodes ''jze #7'' ''jze'' ''#7''"
    by (simp add: decodes_def split_js_def trim_def isWhite_def)
  have d3: "decodes ''jze #12'' ''jze'' ''#12''"
    by (simp add: decodes_def split_js_def trim_def isWhite_def)
  have z: "registers ?a S = Num 0" by simp
  have p7: "parseArgs ?b ''#7'' 0 True 1 = Inr (Number (Num 7))" by (simp add: eval_defs)
  have p12: "parseArgs ?b ''#12'' 0 True 1 = Inr (Number (Num 12))" by (simp add: eval_defs)
  have fall: "decodes ''jnz #5'' ''jnz'' ''#5'' \<and> registers ?a S = Num 0
      \<and> registers ?a PC = Num 3 \<and> \<bar>3::int\<bar> < 2 ^ 53"
    using d1 by simp
  have take7: "decodes ''jze #7'' ''jze'' ''#7'' \<and> registers ?b S = Num 0
      \<and> parseArgs ?b ''#7'' 0 True 1 = Inr (Number (Num 7))"
    using d2 p7 by simp
  have take12: "decodes ''jze #12'' ''jze'' ''#12'' \<and> registers ?b S = Num 0
      \<and> parseArgs ?b ''#12'' 0 True 1 = Inr (Number (Num 12))"
    using d3 p12 by simp
  have in7: "0 \<le> (7::int) \<and> 7 \<le> pEnd ?b \<and> pEnd ?b \<le> 2 ^ 53" by simp
  have out12: "(12::int) < 0 \<or> pEnd ?b < 12" by simp
  note A = jnz_jze_branch[of ?a "''#5''" "''jnz #5''" "''jmp #5''" 3 0]
  note B = jnz_jze_branch[of ?b "''#7''" "''jze #7''" "''jmp #7''" 3 7]
  note D = jnz_jze_branch[of ?b "''#12''" "''jze #12''" "''jmp #12''" 3 12]
  have e1: "exec ?a (Some ''jnz #5'') = Inr (with_reg ?a PC (Num (3 + 1)))"
    by (rule A[THEN conjunct2, THEN conjunct2, THEN conjunct2, THEN conjunct2, THEN conjunct2,
          THEN conjunct2, THEN conjunct1, THEN mp, OF fall])
  have e2: "exec ?b (Some ''jze #7'') = Inr (with_reg ?b PC (Num 7))"
    by (rule B[THEN conjunct2, THEN conjunct2, THEN conjunct2, THEN conjunct2, THEN conjunct2,
          THEN conjunct2, THEN conjunct2, THEN conjunct2, THEN conjunct2, THEN mp, OF take7,
          THEN conjunct1, THEN mp, OF in7])
  have e3: "exec ?b (Some ''jze #12'') = Inl (JumpOutOfBounds (Num 12), ?b)"
    by (rule D[THEN conjunct2, THEN conjunct2, THEN conjunct2, THEN conjunct2, THEN conjunct2,
          THEN conjunct2, THEN conjunct2, THEN conjunct2, THEN conjunct2, THEN mp, OF take12,
          THEN conjunct2, THEN mp, OF out12])
  from e1 have e1': "exec ?a (Some ''jnz #5'') = Inr (with_reg ?a PC (Num 4))" by simp
  show ?thesis by (intro conjI) (rule d1 z e1' d2 p7 e2 e3)+
qed

section \<open>Decoding and failures\<close>

text \<open>
  C7, as the source has it. The line is split at every space; the opcode is the text before
  the first space and the operand text is the text between the first space and the second
  (or the end of the line). \<open>exec\<close> fails with a missing-operand error exactly when the
  line has no space, or the opcode is in the dispatch table and that operand text trims to
  empty; it fails with an unknown-opcode error exactly when the line has a space and the
  opcode is not in the dispatch table.
\<close>

theorem exec_decode_errors:
  "split_js CHR '' '' line ! 0 = opcode_of line
   \<and> (2 \<le> length (split_js CHR '' '' line) \<longleftrightarrow> CHR '' '' \<in> set line)
   \<and> (CHR '' '' \<in> set line \<longrightarrow> split_js CHR '' '' line ! 1 = operand_of line)
   \<and> (fails_with MissingOperandError (exec c (Some line)) \<longleftrightarrow>
        CHR '' '' \<notin> set line \<or>
        (instructionSet (opcode_of line) \<noteq> None \<and> trim (operand_of line) = []))
   \<and> (fails_with UnknownOpcodeError (exec c (Some line)) \<longleftrightarrow>
        CHR '' '' \<in> set line \<and> instructionSet (opcode_of line) = None)"
proof -
  have hf: "\<not> fails_with MissingOperandError (f c a) \<and> \<not> fails_with UnknownOpcodeError (f c a)"
    if "instructionSet n = Some (Some f)" for n f a
  proof (cases "f c a")
    case (Inl p)
    obtain e c' where p: "p = (e, c')" by (cases p)
    from handler_fail[OF that, of c a e c'] Inl p have "handler_error c e" by simp
    with Inl p show ?thesis using handler_error_kinds[of c e] by (simp add: fails_with_def)
  next
    case (Inr c')
    then show ?thesis by (simp add: fails_with_def)
  qed
  have m: "fails_with MissingOperandError (exec c (Some line)) \<longleftrightarrow>
        CHR '' '' \<notin> set line \<or>
        (instructionSet (opcode_of line) \<noteq> None \<and> trim (operand_of line) = [])"
  proof (cases "instructionSet (opcode_of line)")
    case None
    then show ?thesis by (simp add: exec_Some fails_with_def)
  next
    case (Some h)
    show ?thesis
    proof (cases h)
      case None
      with Some show ?thesis by (simp add: exec_Some fails_with_def)
    next
      case f: (Some f)
      with Some hf[of "opcode_of line" f "trim (operand_of line)"] show ?thesis
        by (auto simp: exec_Some fails_with_def split: sum.splits)
    qed
  qed
  have u: "fails_with UnknownOpcodeError (exec c (Some line)) \<longleftrightarrow>
        CHR '' '' \<in> set line \<and> instructionSet (opcode_of line) = None"
  proof (cases "instructionSet (opcode_of line)")
    case None
    then show ?thesis by (simp add: exec_Some fails_with_def)
  next
    case (Some h)
    show ?thesis
    proof (cases h)
      case None
      with Some show ?thesis by (simp add: exec_Some fails_with_def)
    next
      case f: (Some f)
      with Some hf[of "opcode_of line" f "trim (operand_of line)"] show ?thesis
        by (auto simp: exec_Some fails_with_def split: sum.splits)
    qed
  qed
  from m u show ?thesis
    by (simp add: split_js_first split_js_length split_js_second)
qed

theorem exec_decode_errors_witness:
  "CHR '' '' \<in> set ''xyz #1,r0'' \<and> instructionSet (opcode_of ''xyz #1,r0'') = None
   \<and> fails_with UnknownOpcodeError (exec (reset jscpu) (Some ''xyz #1,r0''))
   \<and> \<not> fails_with MissingOperandError (exec (reset jscpu) (Some ''xyz #1,r0''))"
proof -
  have a: "CHR '' '' \<in> set ''xyz #1,r0''" by simp
  have b: "instructionSet (opcode_of ''xyz #1,r0'') = None"
    by (simp add: opcode_of_def instructionSet_def)
  from exec_decode_errors[of "''xyz #1,r0''" "reset jscpu"] a b show ?thesis by simp
qed

text \<open>
  C7 as stated fails on \<^verbatim>\<open>mov  r0,#5\<close>, with two spaces: the line has a space and the text
  after the first space trims to \<^verbatim>\<open>r0,#5\<close>, yet \<open>exec\<close> reads the empty text between the
  two spaces and throws the missing-operand error. It also fails on \<^verbatim>\<open>xyz\<close>: the opcode is
  not in the dispatch table, and the error is the missing-operand one.
\<close>

theorem exec_operand_counterexample:
  "CHR '' '' \<in> set ''mov  r0,#5'' \<and> trim '' r0,#5'' = ''r0,#5''
   \<and> exec (reset jscpu) (Some ''mov  r0,#5'') = Inl (NoArguments ''mov'' (Num 0), reset jscpu)
   \<and> MissingOperandError (NoArguments ''mov'' (Num 0))
   \<and> instructionSet ''xyz'' = None
   \<and> exec (reset jscpu) (Some ''xyz'') = Inl (ExpectedSpace (Num 0), reset jscpu)
   \<and> \<not> UnknownOpcodeError (ExpectedSpace (Num 0))"
  by (simp add: run_defs)

text \<open>
  C6, as the source has it. When an instruction fails with an unknown-register or an
  unknown-opcode error, the error quotes the current \<open>pc\<close>, and the instance is as it was
  before the instruction, except that \<open>add\<close> may have set \<open>ovfl\<close> to 1 and \<open>sub\<close> may have
  set \<open>udfl\<close> to 1; after an unknown-opcode error it is exactly as before. A single
  register read or write checks the name before it touches the bank.
\<close>

theorem unknown_name_failure:
  assumes ex: "exec c (Some line) = Inl (e, c')"
    and kind: "UnknownRegisterError e \<or> UnknownOpcodeError e"
  shows "error_line e = Some (registers c PC)
   \<and> inst c' = inst c \<and> pEnd c' = pEnd c
   \<and> (c' = c \<or> (opcode_of line = ''add'' \<and> c' = with_reg c Ovfl (Num 1))
             \<or> (opcode_of line = ''sub'' \<and> c' = with_reg c Udfl (Num 1)))
   \<and> (UnknownOpcodeError e \<longrightarrow> c' = c)
   \<and> (\<forall>n v e2 c2. setRegisterValue c n v = Inl (e2, c2) \<longrightarrow>
         c2 = c \<and> e2 = UnknownRegister n (registers c PC))
   \<and> (\<forall>n e2 c2. getRegisterValue c n = Inl (e2, c2) \<longrightarrow>
         c2 = c \<and> e2 = UnknownRegister n (registers c PC))"
proof -
  have main_part: "error_line e = Some (registers c PC)
     \<and> (c' = c \<or> (opcode_of line = ''add'' \<and> c' = with_reg c Ovfl (Num 1))
             \<or> (opcode_of line = ''sub'' \<and> c' = with_reg c Udfl (Num 1)))
     \<and> (UnknownOpcodeError e \<longrightarrow> c' = c)"
  proof (cases "instructionSet (opcode_of line)")
    case None
    with ex kind show ?thesis by (auto simp: exec_Some split: if_splits)
  next
    case (Some h)
    show ?thesis
    proof (cases h)
      case None
      with Some ex kind show ?thesis by (auto simp: exec_Some split: if_splits)
    next
      case f: (Some f)
      show ?thesis
      proof (cases "f c (trim (operand_of line))")
        case (Inr c'')
        with Some f ex kind show ?thesis by (auto simp: exec_Some split: if_splits)
      next
        case (Inl p)
        obtain e1 c1 where p: "p = (e1, c1)" by (cases p)
        from Some f have i: "instructionSet (opcode_of line) = Some (Some f)" by simp
        from handler_fail[OF i, of c "trim (operand_of line)" e1 c1] Inl p
        have hfail: "(c1 = c \<or> (opcode_of line = ''add'' \<and> c1 = with_reg c Ovfl (Num 1)) \<or>
            (opcode_of line = ''sub'' \<and> c1 = with_reg c Udfl (Num 1))) \<and> handler_error c e1"
          by simp
        from ex Some f Inl p have "(e = e1 \<and> c' = c1) \<or> (c' = c \<and> MissingOperandError e)"
          by (auto simp: exec_Some split: if_splits)
        with kind have eq: "e = e1 \<and> c' = c1" by (cases e) auto
        with hfail kind handler_error_kinds[of c e1] show ?thesis by auto
      qed
    qed
  qed
  then have "inst c' = inst c \<and> pEnd c' = pEnd c" by auto
  with main_part show ?thesis
    by (auto dest: setRegisterValue_fail simp: getRegisterValue_def validateRegister_def
        split: if_splits)
qed

theorem unknown_name_failure_witness:
  "exec (reset jscpu) (Some ''mov rx,#1'') = Inl (UnknownRegister ''rx'' (Num 0), reset jscpu)
   \<and> UnknownRegisterError (UnknownRegister ''rx'' (Num 0))
   \<and> error_line (UnknownRegister ''rx'' (Num 0)) = Some (registers (reset jscpu) PC)"
proof -
  have h: "exec (reset jscpu) (Some ''mov rx,#1'') =
      Inl (UnknownRegister ''rx'' (Num 0), reset jscpu)"
    by (simp add: run_defs)
  have k: "UnknownRegisterError (UnknownRegister ''rx'' (Num 0)) \<or>
      UnknownOpcodeError (UnknownRegister ''rx'' (Num 0))" by simp
  from unknown_name_failure[OF h k] h show ?thesis by simp
qed

text \<open>
  C6 as stated fails on \<^verbatim>\<open>add #255,#5\<close>: the sum 260 is clamped and \<open>ovfl\<close> is set to 1
  before the destination name \<^verbatim>\<open>#5\<close> is checked, so the instruction fails with the
  unknown-register error and leaves \<open>ovfl\<close> changed from 0 to 1.
\<close>

theorem add_partial_write_counterexample:
  "exec (reset jscpu) (Some ''add #255,#5'') =
     Inl (UnknownRegister ''#5'' (Num 0), with_reg (reset jscpu) Ovfl (Num 1))
   \<and> UnknownRegisterError (UnknownRegister ''#5'' (Num 0))
   \<and> registers (with_reg (reset jscpu) Ovfl (Num 1)) Ovfl \<noteq> registers (reset jscpu) Ovfl"
  by (simp add: run_defs)

section \<open>Loading\<close>

lemma init_never_EmptyProgramError: "init c asm = Some r \<Longrightarrow> \<not> fails_with EmptyProgramError r"
  by (simp add: init_eq main_not_NoSource)

lemma blank_program_lines:
  "(\<forall>l \<in> set (split_js CHR 0x0A asm). trim l = []) \<longleftrightarrow> program_lines asm = []"
  by (auto simp: program_lines_def filter_empty_conv)

lemma init_blank_source:
  assumes "\<forall>l \<in> set (split_js CHR 0x0A asm). trim l = []"
  shows "init jscpu asm = Some (Inr (reset jscpu))"
proof -
  from assms have "program_lines asm = []" by (simp add: blank_program_lines)
  then show ?thesis by (simp add: init_eq main_halt jscpu_def reset_def)
qed

text \<open>
  C1 does not hold of the source. \<^verbatim>\<open>split\<close> never returns an empty array, so the test
  \<^verbatim>\<open>rb.length < 1\<close> that guards the throw of \<^verbatim>\<open>'No assembly source received'\<close> is never
  true: loading the empty text into a new instance returns normally, with an empty
  program, all registers 0 and no error (\<open>init_blank_source\<close> has the same for every
  source of blank lines, \<open>init_never_EmptyProgramError\<close> that no load ends in that error).
\<close>

theorem init_empty_source: "init jscpu [] = Some (Inr (reset jscpu))"
  by (rule init_blank_source) (simp add: split_js_def trim_def)

text \<open>
  C10. After a load into an instance \<open>c0\<close> has ended, by returning or by throwing, the
  instruction list is that of \<open>c0\<close> followed by the non-blank trimmed lines of the source;
  a further load runs the loop from \<open>pc = 0\<close>, all registers 0, on that list followed by the
  lines of the new source, with \<open>pEnd\<close> the length of the whole list.
\<close>

theorem second_load_appends:
  assumes "init c0 asm1 = Some r1"
  shows "inst (state_of r1) = inst c0 @ program_lines asm1
   \<and> init (state_of r1) asm2 =
       main \<lparr>inst = inst c0 @ program_lines asm1 @ program_lines asm2,
             pEnd = int (length (inst c0) + length (program_lines asm1) + length (program_lines asm2)),
             registers = (\<lambda>_. Num 0)\<rparr>"
proof -
  from assms have "main \<lparr>inst = inst c0 @ program_lines asm1,
           pEnd = int (length (inst c0) + length (program_lines asm1)),
           registers = registers (reset c0)\<rparr> = Some r1"
    by (simp add: init_eq)
  from main_frame[OF this] have i: "inst (state_of r1) = inst c0 @ program_lines asm1" by simp
  have "registers (reset (state_of r1)) = registers (reset c0)" by (simp add: reset_def)
  with i show ?thesis by (simp add: init_eq[of "state_of r1"] add.assoc reset_def)
qed

theorem second_load_appends_witness:
  "init jscpu ''mov r0,#7'' =
     Some (Inr (with_reg (with_reg ((reset jscpu)\<lparr>inst := [''mov r0,#7''], pEnd := 1\<rparr>) R0 (Num 7)) PC (Num 1)))
   \<and> init (with_reg (with_reg ((reset jscpu)\<lparr>inst := [''mov r0,#7''], pEnd := 1\<rparr>) R0 (Num 7)) PC (Num 1))
        ''mov r1,#9'' =
     Some (Inr (with_reg (with_reg (with_reg
       ((reset jscpu)\<lparr>inst := [''mov r0,#7'', ''mov r1,#9''], pEnd := 2\<rparr>) R0 (Num 7)) R1 (Num 9)) PC (Num 2)))"
proof -
  let ?c1 = "with_reg (with_reg ((reset jscpu)\<lparr>inst := [''mov r0,#7''], pEnd := 1\<rparr>) R0 (Num 7)) PC (Num 1)"
  have h: "init jscpu ''mov r0,#7'' = Some (Inr ?c1)"
    by (simp add: init_eq main_step main_halt run_defs)
  have p1: "program_lines ''mov r0,#7'' = [''mov r0,#7'']" by (simp add: run_defs)
  have p2: "program_lines ''mov r1,#9'' = [''mov r1,#9'']" by (simp add: run_defs)
  have m: "main \<lparr>inst = [''mov r0,#7'', ''mov r1,#9''], pEnd = 2, registers = (\<lambda>_. Num 0)\<rparr>
     = Some (Inr (with_reg (with_reg (with_reg
       ((reset jscpu)\<lparr>inst := [''mov r0,#7'', ''mov r1,#9''], pEnd := 2\<rparr>) R0 (Num 7)) R1 (Num 9)) PC (Num 2)))"
    by (simp add: main_step main_halt run_defs)
  from second_load_appends[OF h, of "''mov r1,#9''"] have
    "init (state_of (Inr ?c1)) ''mov r1,#9'' =
       main \<lparr>inst = inst jscpu @ program_lines ''mov r0,#7'' @ program_lines ''mov r1,#9'',
             pEnd = int (length (inst jscpu) + length (program_lines ''mov r0,#7'') + length (program_lines ''mov r1,#9'')),
             registers = (\<lambda>_. Num 0)\<rparr>" by blast
  then have "init ?c1 ''mov r1,#9'' =
      main \<lparr>inst = [''mov r0,#7'', ''mov r1,#9''], pEnd = 2, registers = (\<lambda>_. Num 0)\<rparr>"
    by (simp add: p1 p2 jscpu_def)
  then have "init ?c1 ''mov r1,#9'' =
      Some (Inr (with_reg (with_reg (with_reg
       ((reset jscpu)\<lparr>inst := [''mov r0,#7'', ''mov r1,#9''], pEnd := 2\<rparr>) R0 (Num 7)) R1 (Num 9)) PC (Num 2)))"
    by (simp only: m)
  with h show ?thesis by (rule conjI)
qed

end
